theory Spec2Isabelle
  imports Main "HOL-Library.Word" "HOL-Library.Signed_Division" "HOL-Library.AList"
begin

unbundle bit_operations_syntax

section \<open>Conventions of the embedding\<close>

text \<open>
  The package gof2 is embedded function by function.  Go's \<open>int\<close> is an Isabelle \<open>int\<close>:
  the storage kinds are bounded by 65535 in each dimension, far from the 64-bit range,
  and the theorems that take a structural matrix of any size do no arithmetic on it.
  \<open>uint16\<close>, \<open>uint32\<close> and \<open>uint8\<close> are words of that width, and a \<open>*big.Int\<close>
  polynomial is an \<open>int\<close>: \<open>Sign\<close> is \<open>sgn\<close>, \<open>Bit\<close> is \<open>bit\<close>, \<open>Xor\<close> is \<open>XOR\<close> and
  \<open>Mul\<close> is the product of integers.  A Go map is an association list, traversed in
  list order by \<open>range\<close>; a missing key reads as the zero value of the element type,
  which for a map of pointers is \<open>nil\<close> (\<open>None\<close> here).  A polynomial passed as an
  argument is a pointer that is not nil.  Every panic of the source is a value of type
  \<open>error\<close>, returned on the left of a sum.
\<close>

datatype error =
    SizeNotPositive
  | SizeTooLarge
  | RowOutOfBounds
  | ColOutOfBounds
  | IndexOutOfBounds
  | NotBinary
  | DimMismatch
  | Immutable
  | NilDeref
  | DivideByZero
  | SliceRange

definition bindE :: "error + 'a \<Rightarrow> ('a \<Rightarrow> error + 'b) \<Rightarrow> error + 'b" where
  "bindE m f = (case m of Inl e \<Rightarrow> Inl e | Inr x \<Rightarrow> f x)"

definition failsE :: "error + 'a \<Rightarrow> bool" where
  "failsE m = (case m of Inl e \<Rightarrow> True | Inr x \<Rightarrow> False)"

text \<open>A \<open>for\<close> loop over a list of items whose body may panic.\<close>

fun forE :: "'a list \<Rightarrow> ('a \<Rightarrow> 's \<Rightarrow> error + 's) \<Rightarrow> 's \<Rightarrow> error + 's" where
  "forE [] body s = Inr s"
| "forE (x # xs) body s = (case body x s of Inl e \<Rightarrow> Inl e | Inr s' \<Rightarrow> forE xs body s')"

text \<open>\<open>for i := 0; i < n; i++\<close> visits \<open>0, 1, ..., n - 1\<close>, and nothing when \<open>n \<le> 0\<close>.\<close>

definition below :: "int \<Rightarrow> int list" where
  "below n = map int [0..<nat n]"

section \<open>Polynomials: the part of math/big the package uses\<close>

fun BitLen_nat :: "nat \<Rightarrow> nat" where
  "BitLen_nat n = (if n = 0 then 0 else Suc (BitLen_nat (n div 2)))"

declare BitLen_nat.simps [simp del]

definition BitLen :: "int \<Rightarrow> int" where
  "BitLen p = int (BitLen_nat (nat \<bar>p\<bar>))"

text \<open>
  \<open>Bit\<close> and \<open>SetBit\<close> panic on a negative index.  The package calls them with the
  result of \<open>index\<close>, with \<open>c*rows + r\<close> for coordinates that are not negative, and with
  \<open>rows*cols\<close>, which is not negative for the sizes the constructors admit.
\<close>

definition Bit :: "int \<Rightarrow> int \<Rightarrow> nat" where
  "Bit x i = of_bool (bit x (nat i))"

definition SetBit :: "int \<Rightarrow> int \<Rightarrow> nat \<Rightarrow> int" where
  "SetBit x i b = (if b = 0 then unset_bit (nat i) x else set_bit (nat i) x)"

definition zeroP :: int where
  "zeroP = 0"

definition oneP :: int where
  "oneP = 1"

definition check01 :: "int \<Rightarrow> error + 8 word" where
  "check01 p = (if sgn p < 0 \<or> BitLen p > 1 then Inl NotBinary else Inr (of_nat (Bit p 0)))"

definition to01 :: "bool \<Rightarrow> int" where
  "to01 b = (if b then oneP else zeroP)"

text \<open>
  The degree of a polynomial over GF(2) stored as a bit vector: the position of its
  highest set bit, with \<open>-1\<close> for the zero polynomial.
\<close>

definition poly_degree :: "int \<Rightarrow> int" where
  "poly_degree p = BitLen p - 1"

section \<open>SM: the sparse binary matrix\<close>

record SM =
  sm_r :: "16 word"
  sm_c :: "16 word"
  sm_v :: "(32 word \<times> 8 word) list"

definition lookup0 :: "('k \<times> 'v::zero) list \<Rightarrow> 'k \<Rightarrow> 'v" where
  "lookup0 m k = (case map_of m k of None \<Rightarrow> 0 | Some x \<Rightarrow> x)"

definition NewSparse :: "int \<Rightarrow> int \<Rightarrow> error + SM" where
  "NewSparse rows cols =
     (if rows \<le> 0 \<or> cols \<le> 0 then Inl SizeNotPositive
      else if rows > 65535 \<or> cols > 65535 then Inl SizeTooLarge
      else Inr \<lparr>sm_r = word_of_int rows, sm_c = word_of_int cols, sm_v = []\<rparr>)"

definition SM_Size :: "SM \<Rightarrow> int \<times> int" where
  "SM_Size sm = (uint (sm_r sm), uint (sm_c sm))"

text \<open>\<open>uint32(uint16(c))<<16 | uint32(uint16(r))\<close>\<close>

definition coord :: "int \<Rightarrow> int \<Rightarrow> 32 word" where
  "coord r c = push_bit 16 (ucast (word_of_int c :: 16 word)) OR ucast (word_of_int r :: 16 word)"

definition SM_index :: "SM \<Rightarrow> int \<Rightarrow> int \<Rightarrow> error + 32 word" where
  "SM_index sm r c =
     (if r - 1 < 0 \<or> r - 1 \<ge> uint (sm_r sm) then Inl RowOutOfBounds
      else if c - 1 < 0 \<or> c - 1 \<ge> uint (sm_c sm) then Inl ColOutOfBounds
      else Inr (coord (r - 1) (c - 1)))"

definition SM_At :: "SM \<Rightarrow> int \<Rightarrow> int \<Rightarrow> error + int" where
  "SM_At sm r c = bindE (SM_index sm r c)
     (\<lambda>k. Inr (if lookup0 (sm_v sm) k \<noteq> 0 then oneP else zeroP))"

definition SM_SetAt :: "SM \<Rightarrow> int \<Rightarrow> int \<Rightarrow> int \<Rightarrow> error + SM" where
  "SM_SetAt sm r c p = bindE (SM_index sm r c)
     (\<lambda>k. bindE (check01 p)
     (\<lambda>b. Inr (sm\<lparr>sm_v := AList.update k b (sm_v sm)\<rparr>)))"

definition SM_AddAt :: "SM \<Rightarrow> int \<Rightarrow> int \<Rightarrow> int \<Rightarrow> error + int \<times> SM" where
  "SM_AddAt sm r c p = bindE (SM_index sm r c)
     (\<lambda>k. bindE (check01 p)
     (\<lambda>b. let x = lookup0 (sm_v sm) k XOR b
          in Inr (to01 (x \<noteq> 0), sm\<lparr>sm_v := AList.update k x (sm_v sm)\<rparr>)))"

definition SM_MulAt :: "SM \<Rightarrow> int \<Rightarrow> int \<Rightarrow> int \<Rightarrow> error + int \<times> SM" where
  "SM_MulAt sm r c p = bindE (SM_index sm r c)
     (\<lambda>k. bindE (check01 p)
     (\<lambda>b. let x = lookup0 (sm_v sm) k AND b
          in Inr (to01 (x \<noteq> 0), sm\<lparr>sm_v := AList.update k x (sm_v sm)\<rparr>)))"

section \<open>FM: the full binary matrix\<close>

record FM =
  fm_r :: "16 word"
  fm_c :: "16 word"
  fm_v :: int

definition NewFull :: "int \<Rightarrow> int \<Rightarrow> error + FM" where
  "NewFull rows cols =
     (if rows \<le> 0 \<or> cols \<le> 0 then Inl SizeNotPositive
      else if rows > 65535 \<or> cols > 65535 then Inl SizeTooLarge
      else Inr \<lparr>fm_r = word_of_int rows, fm_c = word_of_int cols,
                fm_v = SetBit 0 (rows * cols) 1\<rparr>)"

definition FM_Size :: "FM \<Rightarrow> int \<times> int" where
  "FM_Size fm = (uint (fm_r fm), uint (fm_c fm))"

definition FM_index :: "FM \<Rightarrow> int \<Rightarrow> int \<Rightarrow> error + int" where
  "FM_index fm r c =
     (if r - 1 < 0 \<or> r - 1 \<ge> uint (fm_r fm) then Inl RowOutOfBounds
      else if c - 1 < 0 \<or> c - 1 \<ge> uint (fm_c fm) then Inl ColOutOfBounds
      else Inr ((c - 1) * uint (fm_r fm) + (r - 1)))"

definition FM_At :: "FM \<Rightarrow> int \<Rightarrow> int \<Rightarrow> error + int" where
  "FM_At fm r c = bindE (FM_index fm r c)
     (\<lambda>k. Inr (if Bit (fm_v fm) k \<noteq> 0 then oneP else zeroP))"

definition FM_SetAt :: "FM \<Rightarrow> int \<Rightarrow> int \<Rightarrow> int \<Rightarrow> error + FM" where
  "FM_SetAt fm r c p = bindE (FM_index fm r c)
     (\<lambda>k. bindE (check01 p)
     (\<lambda>b. Inr (fm\<lparr>fm_v := SetBit (fm_v fm) k (unat b)\<rparr>)))"

definition FM_AddAt :: "FM \<Rightarrow> int \<Rightarrow> int \<Rightarrow> int \<Rightarrow> error + int \<times> FM" where
  "FM_AddAt fm r c p = bindE (FM_index fm r c)
     (\<lambda>k. bindE (check01 p)
     (\<lambda>b. let x = Bit (fm_v fm) k XOR unat b
          in Inr (to01 (x \<noteq> 0), fm\<lparr>fm_v := SetBit (fm_v fm) k x\<rparr>)))"

definition FM_MulAt :: "FM \<Rightarrow> int \<Rightarrow> int \<Rightarrow> int \<Rightarrow> error + int \<times> FM" where
  "FM_MulAt fm r c p = bindE (FM_index fm r c)
     (\<lambda>k. bindE (check01 p)
     (\<lambda>b. let x = Bit (fm_v fm) k AND unat b
          in Inr (to01 (x \<noteq> 0), fm\<lparr>fm_v := SetBit (fm_v fm) k x\<rparr>)))"

section \<open>PSM: the sparse polynomial matrix\<close>

record PSM =
  psm_r :: "16 word"
  psm_c :: "16 word"
  psm_v :: "(32 word \<times> int) list"

definition NewPSparse :: "int \<Rightarrow> int \<Rightarrow> error + PSM" where
  "NewPSparse rows cols =
     (if rows \<le> 0 \<or> cols \<le> 0 then Inl SizeNotPositive
      else if rows > 65535 \<or> cols > 65535 then Inl SizeTooLarge
      else Inr \<lparr>psm_r = word_of_int rows, psm_c = word_of_int cols, psm_v = []\<rparr>)"

definition PSM_Size :: "PSM \<Rightarrow> int \<times> int" where
  "PSM_Size A = (uint (psm_r A), uint (psm_c A))"

definition PSM_index :: "PSM \<Rightarrow> int \<Rightarrow> int \<Rightarrow> error + 32 word" where
  "PSM_index A r c =
     (if r - 1 < 0 \<or> r - 1 \<ge> uint (psm_r A) then Inl RowOutOfBounds
      else if c - 1 < 0 \<or> c - 1 \<ge> uint (psm_c A) then Inl ColOutOfBounds
      else Inr (coord (r - 1) (c - 1)))"

text \<open>
  \<open>At\<close> looks the pointer \<open>p\<close> up.  When \<open>p\<close> is \<open>nil\<close> the condition
  \<open>p == nil || p.Sign() == 0\<close> holds by its first disjunct, and the next statement
  evaluates \<open>p.Sign()\<close> on the nil pointer, which panics.  When \<open>p\<close> is a stored zero
  the entry is deleted and \<open>p\<close> returned.  Otherwise \<open>new(big.Int)\<close>, a fresh zero, is
  returned.  The matrix comes back with the result, because of the deletion.
\<close>

definition PSM_At :: "PSM \<Rightarrow> int \<Rightarrow> int \<Rightarrow> error + int \<times> PSM" where
  "PSM_At A r c = bindE (PSM_index A r c)
     (\<lambda>k. case map_of (psm_v A) k of
             None \<Rightarrow> Inl NilDeref
           | Some p \<Rightarrow>
               if sgn p = 0 then Inr (p, A\<lparr>psm_v := AList.delete k (psm_v A)\<rparr>)
               else Inr (0, A))"

definition PSM_SetAt :: "PSM \<Rightarrow> int \<Rightarrow> int \<Rightarrow> int \<Rightarrow> error + PSM" where
  "PSM_SetAt A r c p = bindE (PSM_index A r c)
     (\<lambda>k. if sgn p = 0 then Inr (A\<lparr>psm_v := AList.delete k (psm_v A)\<rparr>)
          else Inr (A\<lparr>psm_v := AList.update k p (psm_v A)\<rparr>))"

definition PSM_AddAt :: "PSM \<Rightarrow> int \<Rightarrow> int \<Rightarrow> int \<Rightarrow> error + int \<times> PSM" where
  "PSM_AddAt A r c p = bindE (PSM_index A r c)
     (\<lambda>k. let q = (case map_of (psm_v A) k of None \<Rightarrow> 0 | Some q \<Rightarrow> q)
          in Inr (q XOR p, A\<lparr>psm_v := AList.update k (q XOR p) (psm_v A)\<rparr>))"

definition PSM_MulAt :: "PSM \<Rightarrow> int \<Rightarrow> int \<Rightarrow> int \<Rightarrow> error + int \<times> PSM" where
  "PSM_MulAt A r c p = bindE (PSM_index A r c)
     (\<lambda>k. case map_of (psm_v A) k of
             None \<Rightarrow> Inr (0, A\<lparr>psm_v := AList.update k 0 (psm_v A)\<rparr>)
           | Some q \<Rightarrow> Inr (q * p, A\<lparr>psm_v := AList.update k (q * p) (psm_v A)\<rparr>))"

section \<open>PFM: the full polynomial matrix\<close>

record PFM =
  pfm_r :: "16 word"
  pfm_c :: "16 word"
  pfm_v :: "int list"

definition NewPFull :: "int \<Rightarrow> int \<Rightarrow> error + PFM" where
  "NewPFull rows cols =
     (if rows \<le> 0 \<or> cols \<le> 0 then Inl SizeNotPositive
      else if rows > 65535 \<or> cols > 65535 then Inl SizeTooLarge
      else Inr \<lparr>pfm_r = word_of_int rows, pfm_c = word_of_int cols,
                pfm_v = replicate (nat (rows * cols)) 0\<rparr>)"

definition PFM_Size :: "PFM \<Rightarrow> int \<times> int" where
  "PFM_Size A = (uint (pfm_r A), uint (pfm_c A))"

definition PFM_index :: "PFM \<Rightarrow> int \<Rightarrow> int \<Rightarrow> error + int" where
  "PFM_index A r c =
     (if r - 1 < 0 \<or> r - 1 \<ge> uint (pfm_r A) then Inl RowOutOfBounds
      else if c - 1 < 0 \<or> c - 1 \<ge> uint (pfm_c A) then Inl ColOutOfBounds
      else Inr ((c - 1) * uint (pfm_r A) + (r - 1)))"

text \<open>Indexing a slice past its length panics.\<close>

definition slice_get :: "'a list \<Rightarrow> int \<Rightarrow> error + 'a" where
  "slice_get xs i = (if 0 \<le> i \<and> i < int (length xs) then Inr (xs ! nat i) else Inl SliceRange)"

definition slice_set :: "'a list \<Rightarrow> int \<Rightarrow> 'a \<Rightarrow> error + 'a list" where
  "slice_set xs i x = (if 0 \<le> i \<and> i < int (length xs) then Inr (xs[nat i := x]) else Inl SliceRange)"

definition PFM_At :: "PFM \<Rightarrow> int \<Rightarrow> int \<Rightarrow> error + int" where
  "PFM_At A r c = bindE (PFM_index A r c) (\<lambda>k. slice_get (pfm_v A) k)"

definition PFM_SetAt :: "PFM \<Rightarrow> int \<Rightarrow> int \<Rightarrow> int \<Rightarrow> error + PFM" where
  "PFM_SetAt A r c p = bindE (PFM_index A r c)
     (\<lambda>k. bindE (slice_set (pfm_v A) k p) (\<lambda>v'. Inr (A\<lparr>pfm_v := v'\<rparr>)))"

definition PFM_AddAt :: "PFM \<Rightarrow> int \<Rightarrow> int \<Rightarrow> int \<Rightarrow> error + int \<times> PFM" where
  "PFM_AddAt A r c p = bindE (PFM_index A r c)
     (\<lambda>k. bindE (slice_get (pfm_v A) k)
     (\<lambda>q. bindE (slice_set (pfm_v A) k (q XOR p)) (\<lambda>v'. Inr (q XOR p, A\<lparr>pfm_v := v'\<rparr>))))"

definition PFM_MulAt :: "PFM \<Rightarrow> int \<Rightarrow> int \<Rightarrow> int \<Rightarrow> error + int \<times> PFM" where
  "PFM_MulAt A r c p = bindE (PFM_index A r c)
     (\<lambda>k. bindE (slice_get (pfm_v A) k)
     (\<lambda>q. bindE (slice_set (pfm_v A) k (q * p)) (\<lambda>v'. Inr (q * p, A\<lparr>pfm_v := v'\<rparr>))))"

section \<open>The structural matrices I, Z, R and S\<close>

record I =
  i_r :: int
  i_c :: int

definition Eye :: "int \<Rightarrow> int \<Rightarrow> error + I" where
  "Eye rows cols =
     (if rows \<le> 0 \<or> cols \<le> 0 then Inl SizeNotPositive else Inr \<lparr>i_r = rows, i_c = cols\<rparr>)"

definition I_At :: "I \<Rightarrow> int \<Rightarrow> int \<Rightarrow> error + int" where
  "I_At i r c =
     (if r \<le> 0 \<or> r > i_r i \<or> c \<le> 0 \<or> c > i_c i then Inl IndexOutOfBounds
      else Inr (to01 (r = c)))"

record Z =
  z_r :: int
  z_c :: int

definition Zeros :: "int \<Rightarrow> int \<Rightarrow> error + Z" where
  "Zeros rows cols =
     (if rows \<le> 0 \<or> cols \<le> 0 then Inl SizeNotPositive else Inr \<lparr>z_r = rows, z_c = cols\<rparr>)"

definition Z_At :: "Z \<Rightarrow> int \<Rightarrow> int \<Rightarrow> error + int" where
  "Z_At z r c =
     (if r \<le> 0 \<or> r > z_r z \<or> c \<le> 0 \<or> c > z_c z then Inl IndexOutOfBounds
      else Inr zeroP)"

record R =
  r_s :: int
  r_n :: int

text \<open>Go's \<open>%\<close> truncates towards zero: it is \<open>smod\<close>, and \<open>/\<close> is \<open>sdiv\<close>.\<close>

definition Rol :: "int \<Rightarrow> int \<Rightarrow> error + R" where
  "Rol sz shift =
     (if sz \<le> 0 then Inl SizeNotPositive else Inr \<lparr>r_s = sz, r_n = shift smod sz\<rparr>)"

definition R_At :: "R \<Rightarrow> int \<Rightarrow> int \<Rightarrow> error + int" where
  "R_At rot r c =
     (if r \<le> 0 \<or> r > r_s rot \<or> c \<le> 0 \<or> c > r_s rot then Inl IndexOutOfBounds
      else let r1 = (r - 1 + r_n rot) smod r_s rot + 1;
               r2 = (if r1 < 0 then r1 + r_s rot else r1)
           in Inr (to01 (r2 = c)))"

record S =
  s_s :: int
  s_n :: int

definition Shl :: "int \<Rightarrow> int \<Rightarrow> error + S" where
  "Shl sz shift =
     (if sz \<le> 0 then Inl SizeNotPositive else Inr \<lparr>s_s = sz, s_n = shift\<rparr>)"

definition S_At :: "S \<Rightarrow> int \<Rightarrow> int \<Rightarrow> error + int" where
  "S_At s r c =
     (if r \<le> 0 \<or> r > s_s s \<or> c \<le> 0 \<or> c > s_s s then Inl IndexOutOfBounds
      else Inr (to01 (r + s_n s = c)))"

section \<open>The interface M\<close>

text \<open>
  The eight kinds of matrix of the core.  The view proxy \<open>V\<close> of \<open>view.go\<close> only
  translates coordinates before calling through and is left out.
\<close>

datatype M = MSM SM | MFM FM | MPSM PSM | MPFM PFM | MI I | MZ Z | MR R | MS S

fun Size :: "M \<Rightarrow> int \<times> int" where
  "Size (MSM x) = SM_Size x"
| "Size (MFM x) = FM_Size x"
| "Size (MPSM x) = PSM_Size x"
| "Size (MPFM x) = PFM_Size x"
| "Size (MI x) = (i_r x, i_c x)"
| "Size (MZ x) = (z_r x, z_c x)"
| "Size (MR x) = (r_s x, r_s x)"
| "Size (MS x) = (s_s x, s_s x)"

text \<open>
  The value \<open>At\<close> returns.  Only \<open>PSM.At\<close> changes its receiver, by deleting the zero
  entry it has just read; \<open>PSM_At\<close> above returns that matrix.
\<close>

fun At :: "M \<Rightarrow> int \<Rightarrow> int \<Rightarrow> error + int" where
  "At (MSM x) r c = SM_At x r c"
| "At (MFM x) r c = FM_At x r c"
| "At (MPSM x) r c = bindE (PSM_At x r c) (\<lambda>(p, A'). Inr p)"
| "At (MPFM x) r c = PFM_At x r c"
| "At (MI x) r c = I_At x r c"
| "At (MZ x) r c = Z_At x r c"
| "At (MR x) r c = R_At x r c"
| "At (MS x) r c = S_At x r c"

fun SetAt :: "M \<Rightarrow> int \<Rightarrow> int \<Rightarrow> int \<Rightarrow> error + M" where
  "SetAt (MSM x) r c p = bindE (SM_SetAt x r c p) (\<lambda>y. Inr (MSM y))"
| "SetAt (MFM x) r c p = bindE (FM_SetAt x r c p) (\<lambda>y. Inr (MFM y))"
| "SetAt (MPSM x) r c p = bindE (PSM_SetAt x r c p) (\<lambda>y. Inr (MPSM y))"
| "SetAt (MPFM x) r c p = bindE (PFM_SetAt x r c p) (\<lambda>y. Inr (MPFM y))"
| "SetAt (MI x) r c p = Inl Immutable"
| "SetAt (MZ x) r c p = Inl Immutable"
| "SetAt (MR x) r c p = Inl Immutable"
| "SetAt (MS x) r c p = Inl Immutable"

fun AddAt :: "M \<Rightarrow> int \<Rightarrow> int \<Rightarrow> int \<Rightarrow> error + int \<times> M" where
  "AddAt (MSM x) r c p = bindE (SM_AddAt x r c p) (\<lambda>(q, y). Inr (q, MSM y))"
| "AddAt (MFM x) r c p = bindE (FM_AddAt x r c p) (\<lambda>(q, y). Inr (q, MFM y))"
| "AddAt (MPSM x) r c p = bindE (PSM_AddAt x r c p) (\<lambda>(q, y). Inr (q, MPSM y))"
| "AddAt (MPFM x) r c p = bindE (PFM_AddAt x r c p) (\<lambda>(q, y). Inr (q, MPFM y))"
| "AddAt (MI x) r c p = Inl Immutable"
| "AddAt (MZ x) r c p = Inl Immutable"
| "AddAt (MR x) r c p = Inl Immutable"
| "AddAt (MS x) r c p = Inl Immutable"

fun MulAt :: "M \<Rightarrow> int \<Rightarrow> int \<Rightarrow> int \<Rightarrow> error + int \<times> M" where
  "MulAt (MSM x) r c p = bindE (SM_MulAt x r c p) (\<lambda>(q, y). Inr (q, MSM y))"
| "MulAt (MFM x) r c p = bindE (FM_MulAt x r c p) (\<lambda>(q, y). Inr (q, MFM y))"
| "MulAt (MPSM x) r c p = bindE (PSM_MulAt x r c p) (\<lambda>(q, y). Inr (q, MPSM y))"
| "MulAt (MPFM x) r c p = bindE (PFM_MulAt x r c p) (\<lambda>(q, y). Inr (q, MPFM y))"
| "MulAt (MI x) r c p = Inl Immutable"
| "MulAt (MZ x) r c p = Inl Immutable"
| "MulAt (MR x) r c p = Inl Immutable"
| "MulAt (MS x) r c p = Inl Immutable"

section \<open>Writing into the map of a sparse matrix\<close>

definition put :: "'k \<Rightarrow> 'v \<Rightarrow> ('k \<times> 'v) list \<Rightarrow> ('k \<times> 'v) list" where
  "put k x m = AList.update k x m"

text \<open>\<open>C.v[k] ^= x\<close>\<close>

definition xor_at :: "32 word \<Rightarrow> 8 word \<Rightarrow> (32 word \<times> 8 word) list \<Rightarrow> (32 word \<times> 8 word) list" where
  "xor_at k x m = AList.update k (lookup0 m k XOR x) m"

section \<open>Scanning the words of the bit vector of an FM\<close>

text \<open>
  \<open>big.Int.Bits\<close> gives the absolute value as machine words, least significant first,
  with no leading zero word; \<open>bits.UintSize\<close> is 64.
\<close>

function Bits_nat :: "nat \<Rightarrow> 64 word list" where
  "Bits_nat n = (if n = 0 then [] else word_of_nat n # Bits_nat (n div 2 ^ 64))"
  by pat_completeness auto
termination
  by (relation "measure id") auto

declare Bits_nat.simps [simp del]

definition Bits :: "int \<Rightarrow> 64 word list" where
  "Bits x = Bits_nat (nat \<bar>x\<bar>)"

definition TrailingZeros :: "64 word \<Rightarrow> nat" where
  "TrailingZeros w = length (takeWhile (\<lambda>i. \<not> bit w i) [0..<64])"

text \<open>
  The inner loop of the \<open>*FM\<close> case of \<open>Sparse\<close> and \<open>PSparse\<close>, which differ only in the
  value \<open>one\<close> they store: it visits the set bits of the word \<open>w\<close>, whose lowest bit has
  position \<open>k\<close> in the vector.
\<close>

function scan_word ::
  "16 word \<Rightarrow> 16 word \<Rightarrow> 'v \<Rightarrow> int \<Rightarrow> 64 word \<Rightarrow> (32 word \<times> 'v) list \<Rightarrow> error + (32 word \<times> 'v) list" where
  "scan_word Br Bc one k w m =
     (if w = 0 then Inr m
      else let b = k + int (TrailingZeros w)
           in if uint Br = 0 then Inl DivideByZero
              else let r = b smod uint Br; c = b sdiv uint Br;
                       m' = (if c < uint Bc
                             then put (word_of_int (push_bit 16 c) OR word_of_int r) one m
                             else m)
                   in scan_word Br Bc one k (w AND (w - 1)) m')"
  by pat_completeness auto
termination
proof (relation "measure (\<lambda>(Br, Bc, one, k, w, m). unat w)")
  show "wf (measure (\<lambda>(Br, Bc, one, k, w, m). unat w))"
    by simp
next
  fix Br Bc :: "16 word" and one :: 'v and k :: int and w :: "64 word"
    and m x xa xb xc :: "(32 word \<times> 'v) list" and b r c :: int
  assume "w \<noteq> 0"
  then have "w - 1 < w"
    by (simp add: word_less_nat_alt unat_minus_one unat_gt_0)
  moreover have "w AND (w - 1) \<le> w - 1"
    by (rule word_and_le1)
  ultimately have "w AND (w - 1) < w"
    by simp
  then show "((Br, Bc, one, k, w AND (w - 1), xc), (Br, Bc, one, k, w, m))
      \<in> measure (\<lambda>(Br, Bc, one, k, w, m). unat w)"
    by (simp add: word_less_nat_alt)
qed

declare scan_word.simps [simp del]

fun scan_words ::
  "16 word \<Rightarrow> 16 word \<Rightarrow> 'v \<Rightarrow> int \<Rightarrow> 64 word list \<Rightarrow> (32 word \<times> 'v) list \<Rightarrow> error + (32 word \<times> 'v) list" where
  "scan_words Br Bc one k [] m = Inr m"
| "scan_words Br Bc one k (w # ws) m =
     bindE (scan_word Br Bc one k w m) (\<lambda>m'. scan_words Br Bc one (k + 64) ws m')"

section \<open>The converters\<close>

definition Sparse :: "M \<Rightarrow> error + SM" where
  "Sparse m =
     (let (rows, cols) = Size m in
      if rows > 65535 \<or> cols > 65535 then Inl SizeTooLarge
      else
        let Br = (word_of_int rows :: 16 word); Bc = (word_of_int cols :: 16 word);
            mk = (\<lambda>v. Inr \<lparr>sm_r = Br, sm_c = Bc, sm_v = v\<rparr>)
        in case m of
             MSM A \<Rightarrow>
               mk (fold (\<lambda>(k, v) acc. if v \<noteq> 0 then put k v acc else acc) (sm_v A) [])
           | MFM A \<Rightarrow> bindE (scan_words Br Bc 1 0 (Bits (fm_v A)) []) mk
           | MI A \<Rightarrow>
               mk (fold (\<lambda>k acc. put (word_of_int k * 0x00010001) 1 acc) (below rows) [])
           | MZ A \<Rightarrow> mk []
           | MR A \<Rightarrow>
               mk (fold (\<lambda>i acc.
                     let r = i + r_n A smod rows;
                         r' = (if r < 0 then r + rows else r)
                     in put (word_of_int (push_bit 16 r') OR word_of_int i) 1 acc) (below rows) [])
           | MS A \<Rightarrow>
               (if s_n A \<ge> 0
                then mk (fold (\<lambda>i acc. put (push_bit 16 (word_of_int (i + s_n A)) OR word_of_int i) 1 acc)
                           (below (rows - s_n A)) [])
                else mk (fold (\<lambda>i acc. put (push_bit 16 (word_of_int i) OR word_of_int (i - s_n A)) 1 acc)
                           (below (rows + s_n A)) []))
           | _ \<Rightarrow>
               bindE (forE (below rows) (\<lambda>r acc.
                        forE (below cols) (\<lambda>c acc.
                          bindE (At m (r + 1) (c + 1)) (\<lambda>p. bindE (check01 p) (\<lambda>b.
                            if b \<noteq> 0 then Inr (put (word_of_int (push_bit 16 c) OR word_of_int r) 1 acc)
                            else Inr acc))) acc) []) mk)"

definition Full :: "M \<Rightarrow> error + FM" where
  "Full m =
     (let (rows, cols) = Size m in
      if rows > 65535 \<or> cols > 65535 then Inl SizeTooLarge
      else
        let Br = (word_of_int rows :: 16 word); Bc = (word_of_int cols :: 16 word);
            mk = (\<lambda>v. Inr \<lparr>fm_r = Br, fm_c = Bc, fm_v = v\<rparr>)
        in case m of
             MSM A \<Rightarrow>
               mk (fold (\<lambda>(k, v) acc.
                     if v \<noteq> 0
                     then let r = uint (k AND 0xffff); c = uint (drop_bit 16 k)
                          in SetBit acc (c * rows + r) 1
                     else acc) (sm_v A) (SetBit 0 (rows * cols) 1))
           | MFM A \<Rightarrow> mk (fm_v A)
           | MI A \<Rightarrow>
               mk (fold (\<lambda>k acc. SetBit acc (k * rows + k) 1) (below rows)
                     (SetBit 0 (rows * cols) 1))
           | _ \<Rightarrow>
               bindE (forE (below rows) (\<lambda>r acc.
                        forE (below cols) (\<lambda>c acc.
                          bindE (At m (r + 1) (c + 1)) (\<lambda>p. bindE (check01 p) (\<lambda>b.
                            if b \<noteq> 0 then Inr (SetBit acc (c * rows + r) 1)
                            else Inr acc))) acc) (SetBit 0 (rows * cols) 1)) mk)"

text \<open>\<open>PSparse\<close> has no case for \<open>*PFM\<close> and no default case.\<close>

definition PSparse :: "M \<Rightarrow> error + PSM" where
  "PSparse m =
     (let (rows, cols) = Size m in
      if rows > 65535 \<or> cols > 65535 then Inl SizeTooLarge
      else
        let Br = (word_of_int rows :: 16 word); Bc = (word_of_int cols :: 16 word);
            mk = (\<lambda>v. Inr \<lparr>psm_r = Br, psm_c = Bc, psm_v = v\<rparr>)
        in case m of
             MSM A \<Rightarrow>
               mk (fold (\<lambda>(k, v) acc. if v \<noteq> 0 then put k 1 acc else acc) (sm_v A) [])
           | MFM A \<Rightarrow> bindE (scan_words Br Bc 1 0 (Bits (fm_v A)) []) mk
           | MPSM A \<Rightarrow>
               mk (fold (\<lambda>(k, v) acc. if sgn v \<noteq> 0 then put k v acc else acc) (psm_v A) [])
           | MI A \<Rightarrow>
               mk (fold (\<lambda>r acc. put (word_of_int r * 0x00010001) 1 acc) (below rows) [])
           | MZ A \<Rightarrow> mk []
           | MR A \<Rightarrow>
               mk (fold (\<lambda>i acc.
                     let r = i + r_n A smod rows;
                         r' = (if r < 0 then r + rows else r)
                     in put (word_of_int (push_bit 16 r') OR word_of_int i) 1 acc) (below rows) [])
           | MS A \<Rightarrow>
               (if s_n A \<ge> 0
                then mk (fold (\<lambda>i acc. put (push_bit 16 (word_of_int (i + s_n A)) OR word_of_int i) 1 acc)
                           (below (rows - s_n A)) [])
                else mk (fold (\<lambda>i acc. put (push_bit 16 (word_of_int i) OR word_of_int (i - s_n A)) 1 acc)
                           (below (rows + s_n A)) []))
           | MPFM A \<Rightarrow> mk [])"

text \<open>
  \<open>PFull\<close> reads \<open>m.At(r, c)\<close> with the zero-based loop counters.  The slots of the new
  slice start as \<open>nil\<close>; each is overwritten before the function returns, so their
  initial value is immaterial and written as 0.
\<close>

definition PFull :: "M \<Rightarrow> error + PFM" where
  "PFull m =
     (let (rows, cols) = Size m in
      if rows > 65535 \<or> cols > 65535 then Inl SizeTooLarge
      else
        bindE (forE (below cols) (\<lambda>c acc.
                 forE (below rows) (\<lambda>r acc.
                   bindE (At m r c) (\<lambda>p. slice_set acc (c * rows + r) p)) acc)
                 (replicate (nat (rows * cols)) 0))
          (\<lambda>v. Inr \<lparr>pfm_r = word_of_int rows, pfm_c = word_of_int cols, pfm_v = v\<rparr>))"

section \<open>Multiplication\<close>

text \<open>\<open>for i := 1; i <= n; i++\<close>\<close>

definition upto1 :: "int \<Rightarrow> int list" where
  "upto1 n = map (\<lambda>i. i + 1) (below n)"

definition fMulFull :: "M \<Rightarrow> M \<Rightarrow> error + FM" where
  "fMulFull A B =
     (let (ar, ac) = Size A; (br, bc) = Size B in
      bindE (NewFull ar bc) (\<lambda>C0.
        forE (upto1 bc) (\<lambda>c C.
          forE (upto1 ar) (\<lambda>r C.
            bindE (forE (upto1 ac) (\<lambda>i d.
                     bindE (At A r i) (\<lambda>x. bindE (check01 x) (\<lambda>a.
                     bindE (At B i c) (\<lambda>y. bindE (check01 y) (\<lambda>b.
                       Inr (d XOR (a AND b))))))) (0 :: 8 word))
              (\<lambda>d. FM_SetAt C r c (to01 (d \<noteq> 0)))) C) C0))"

definition fMulSX :: "SM \<Rightarrow> M \<Rightarrow> error + SM" where
  "fMulSX A B =
     (let (ar, ac) = SM_Size A; (br, bc) = Size B in
      bindE (NewSparse ar bc) (\<lambda>C.
      bindE
        (case B of
           MSM X \<Rightarrow>
             forE (sm_v A) (\<lambda>(j, a) acc.
               if a = 0 then Inr acc
               else forE (sm_v X) (\<lambda>(k, b) acc.
                      if drop_bit 16 j = k AND 0xffff
                      then Inr (xor_at ((k AND 0xffff0000) OR (j AND 0x0000ffff)) (a AND b) acc)
                      else Inr acc) acc) (sm_v C)
         | MPSM X \<Rightarrow>
             forE (sm_v A) (\<lambda>(j, a) acc.
               if a = 0 then Inr acc
               else forE (psm_v X) (\<lambda>(k, b) acc.
                      if drop_bit 16 j = k AND 0xffff
                      then bindE (check01 b) (\<lambda>b'.
                             Inr (xor_at ((k AND 0xffff0000) OR (j AND 0x0000ffff)) (a AND b') acc))
                      else Inr acc) acc) (sm_v C)
         | MI X \<Rightarrow>
             forE (sm_v A) (\<lambda>(j, a) acc.
               if a \<noteq> 0 \<and> drop_bit 16 j < word_of_int bc \<and> j AND 0xffff < word_of_int ar
               then Inr (put j 1 acc) else Inr acc) (sm_v C)
         | MZ X \<Rightarrow> Inr (sm_v C)
         | MR X \<Rightarrow>
             forE (sm_v A) (\<lambda>(j, a) acc.
               if a \<noteq> 0
               then let r = j AND 0xffff; c = drop_bit 16 j
                    in if bc = 0 then Inl DivideByZero
                       else let cc = (uint c - r_n X) smod bc;
                                cc' = (if cc < 0 then cc + bc else cc)
                            in Inr (put (push_bit 16 (word_of_int cc') OR r) 1 acc)
               else Inr acc) (sm_v C)
         | MS X \<Rightarrow>
             (if s_n X \<ge> 0
              then forE (sm_v A) (\<lambda>(j, a) acc.
                     let r = j AND 0xffff; c = drop_bit 16 j; cc = uint c - s_n X
                     in if a \<noteq> 0 \<and> cc \<ge> 0
                        then Inr (put (push_bit 16 (word_of_int cc) OR r) 1 acc)
                        else Inr acc) (sm_v C)
              else forE (sm_v A) (\<lambda>(j, a) acc.
                     let r = j AND 0xffff; c = drop_bit 16 j; cc = uint c - s_n X
                     in if a \<noteq> 0 \<and> cc < bc
                        then Inr (put (push_bit 16 (word_of_int cc) OR r) 1 acc)
                        else Inr acc) (sm_v C))
         | _ \<Rightarrow>
             forE (sm_v A) (\<lambda>(j, a) acc.
               if a = 0 then Inr acc
               else let r = j AND 0xffff; c = uint (drop_bit 16 j)
                    in forE (below ac) (\<lambda>i acc.
                         bindE (At B (c + 1) (i + 1)) (\<lambda>p. bindE (check01 p) (\<lambda>b.
                           if b \<noteq> 0 then Inr (xor_at (push_bit 16 (word_of_int i) OR r) 1 acc)
                           else Inr acc))) acc) (sm_v C))
        (\<lambda>v. Inr (C\<lparr>sm_v := v\<rparr>))))"

definition fMulPSX :: "PSM \<Rightarrow> M \<Rightarrow> error + SM" where
  "fMulPSX A B =
     (let (ar, ac) = PSM_Size A; (br, bc) = Size B in
      bindE (NewSparse ar bc) (\<lambda>C.
      bindE
        (case B of
           MSM X \<Rightarrow>
             forE (psm_v A) (\<lambda>(j, a) acc.
               if sgn a = 0 then Inr acc
               else forE (sm_v X) (\<lambda>(k, b) acc.
                      if drop_bit 16 j = k AND 0xffff
                      then bindE (check01 a) (\<lambda>a'.
                             Inr (xor_at ((k AND 0xffff0000) OR (j AND 0x0000ffff)) (a' AND b) acc))
                      else Inr acc) acc) (sm_v C)
         | MPSM X \<Rightarrow>
             forE (psm_v A) (\<lambda>(j, a) acc.
               if sgn a = 0 then Inr acc
               else forE (psm_v X) (\<lambda>(k, b) acc.
                      if drop_bit 16 j = k AND 0xffff
                      then bindE (check01 a) (\<lambda>a'. bindE (check01 b) (\<lambda>b'.
                             Inr (xor_at ((k AND 0xffff0000) OR (j AND 0x0000ffff)) (a' AND b') acc)))
                      else Inr acc) acc) (sm_v C)
         | MI X \<Rightarrow>
             forE (psm_v A) (\<lambda>(j, a) acc.
               bindE (check01 a) (\<lambda>a'.
                 if a' \<noteq> 0 \<and> drop_bit 16 j < word_of_int bc \<and> j AND 0xffff < word_of_int ar
                 then Inr (put j 1 acc) else Inr acc)) (sm_v C)
         | MZ X \<Rightarrow> Inr (sm_v C)
         | MR X \<Rightarrow>
             forE (psm_v A) (\<lambda>(j, a) acc.
               bindE (check01 a) (\<lambda>a'.
                 if a' \<noteq> 0
                 then let r = j AND 0xffff; c = drop_bit 16 j
                      in if bc = 0 then Inl DivideByZero
                         else let cc = (uint c - r_n X) smod bc;
                                  cc' = (if cc < 0 then cc + bc else cc)
                              in Inr (put (push_bit 16 (word_of_int cc') OR r) 1 acc)
                 else Inr acc)) (sm_v C)
         | MS X \<Rightarrow>
             (if s_n X \<ge> 0
              then forE (psm_v A) (\<lambda>(j, a) acc.
                     let r = j AND 0xffff; c = drop_bit 16 j; cc = uint c - s_n X
                     in bindE (check01 a) (\<lambda>a'.
                          if a' \<noteq> 0 \<and> cc \<ge> 0
                          then Inr (put (push_bit 16 (word_of_int cc) OR r) 1 acc)
                          else Inr acc)) (sm_v C)
              else forE (psm_v A) (\<lambda>(j, a) acc.
                     let r = j AND 0xffff; c = drop_bit 16 j; cc = uint c - s_n X
                     in bindE (check01 a) (\<lambda>a'.
                          if a' \<noteq> 0 \<and> cc < bc
                          then Inr (put (push_bit 16 (word_of_int cc) OR r) 1 acc)
                          else Inr acc)) (sm_v C))
         | _ \<Rightarrow>
             forE (psm_v A) (\<lambda>(j, a) acc.
               bindE (check01 a) (\<lambda>a'.
                 if a' = 0 then Inr acc
                 else let r = j AND 0xffff; c = uint (drop_bit 16 j)
                      in forE (below ac) (\<lambda>i acc.
                           bindE (At B (c + 1) (i + 1)) (\<lambda>p. bindE (check01 p) (\<lambda>b.
                             if b \<noteq> 0 then Inr (xor_at (push_bit 16 (word_of_int i) OR r) 1 acc)
                             else Inr acc))) acc)) (sm_v C))
        (\<lambda>v. Inr (C\<lparr>sm_v := v\<rparr>))))"

text \<open>
  In the \<open>S\<close> case with a negative shift, \<open>fMulXS\<close> and \<open>fMulXPS\<close> mask the row with
  \<open>0xfff\<close>, not \<open>0xffff\<close>.
\<close>

definition fMulXS :: "M \<Rightarrow> SM \<Rightarrow> error + SM" where
  "fMulXS A B =
     (let (ar, ac) = Size A; (br, bc) = SM_Size B in
      bindE (NewSparse ar bc) (\<lambda>C.
      bindE
        (case A of
           MR X \<Rightarrow>
             forE (sm_v B) (\<lambda>(j, a) acc.
               if a \<noteq> 0
               then let r = j AND 0xffff; c = drop_bit 16 j
                    in if ar = 0 then Inl DivideByZero
                       else let rr = (uint r - r_n X) smod ar;
                                rr' = (if rr < 0 then rr + ar else rr)
                            in Inr (put (push_bit 16 c OR word_of_int rr') 1 acc)
               else Inr acc) (sm_v C)
         | MS X \<Rightarrow>
             (if s_n X \<ge> 0
              then forE (sm_v B) (\<lambda>(j, a) acc.
                     let r = j AND 0xffff; c = drop_bit 16 j; rr = uint r + s_n X
                     in if a \<noteq> 0 \<and> rr < ar
                        then Inr (put (push_bit 16 c OR word_of_int rr) 1 acc)
                        else Inr acc) (sm_v C)
              else forE (sm_v B) (\<lambda>(j, a) acc.
                     let r = j AND 0xfff; c = drop_bit 16 j; rr = uint r + s_n X
                     in if a \<noteq> 0 \<and> rr \<ge> 0
                        then Inr (put (push_bit 16 c OR word_of_int rr) 1 acc)
                        else Inr acc) (sm_v C))
         | _ \<Rightarrow>
             forE (sm_v B) (\<lambda>(j, a) acc.
               if a = 0 then Inr acc
               else let r = uint (j AND 0xffff); c = drop_bit 16 j
                    in forE (below ac) (\<lambda>i acc.
                         bindE (At A (i + 1) (r + 1)) (\<lambda>p. bindE (check01 p) (\<lambda>b.
                           if b \<noteq> 0 then Inr (xor_at (push_bit 16 c OR word_of_int i) 1 acc)
                           else Inr acc))) acc) (sm_v C))
        (\<lambda>v. Inr (C\<lparr>sm_v := v\<rparr>))))"

definition fMulXPS :: "M \<Rightarrow> PSM \<Rightarrow> error + SM" where
  "fMulXPS A B =
     (let (ar, ac) = Size A; (br, bc) = PSM_Size B in
      bindE (NewSparse ar bc) (\<lambda>C.
      bindE
        (case A of
           MR X \<Rightarrow>
             forE (psm_v B) (\<lambda>(j, a) acc.
               bindE (check01 a) (\<lambda>a'.
                 if a' \<noteq> 0
                 then let r = j AND 0xffff; c = drop_bit 16 j
                      in if ar = 0 then Inl DivideByZero
                         else let rr = (uint r - r_n X) smod ar;
                                  rr' = (if rr < 0 then rr + ar else rr)
                              in Inr (put (push_bit 16 c OR word_of_int rr') 1 acc)
                 else Inr acc)) (sm_v C)
         | MS X \<Rightarrow>
             (if s_n X \<ge> 0
              then forE (psm_v B) (\<lambda>(j, a) acc.
                     let r = j AND 0xffff; c = drop_bit 16 j; rr = uint r + s_n X
                     in bindE (check01 a) (\<lambda>a'.
                          if a' \<noteq> 0 \<and> rr < ar
                          then Inr (put (push_bit 16 c OR word_of_int rr) 1 acc)
                          else Inr acc)) (sm_v C)
              else forE (psm_v B) (\<lambda>(j, a) acc.
                     let r = j AND 0xfff; c = drop_bit 16 j; rr = uint r + s_n X
                     in bindE (check01 a) (\<lambda>a'.
                          if a' \<noteq> 0 \<and> rr \<ge> 0
                          then Inr (put (push_bit 16 c OR word_of_int rr) 1 acc)
                          else Inr acc)) (sm_v C))
         | _ \<Rightarrow>
             forE (psm_v B) (\<lambda>(j, a) acc.
               bindE (check01 a) (\<lambda>a'.
                 if a' = 0 then Inr acc
                 else let r = uint (j AND 0xffff); c = drop_bit 16 j
                      in forE (below ac) (\<lambda>i acc.
                           bindE (At A (i + 1) (r + 1)) (\<lambda>p. bindE (check01 p) (\<lambda>b.
                             if b \<noteq> 0 then Inr (xor_at (push_bit 16 c OR word_of_int i) 1 acc)
                             else Inr acc))) acc)) (sm_v C))
        (\<lambda>v. Inr (C\<lparr>sm_v := v\<rparr>))))"

text \<open>
  \<open>FMul\<close>: the check of the inner dimensions, the switch on the type of \<open>A\<close>, and, when
  no case of it has returned, the switch on the type of \<open>B\<close> (\<open>FMul_B\<close>) with
  \<open>fMulFull\<close> as the last resort.
\<close>

definition FMul_B :: "M \<Rightarrow> M \<Rightarrow> error + M" where
  "FMul_B A B =
     (let (ar, ac) = Size A; (br, bc) = Size B in
      case B of
        MZ x \<Rightarrow> bindE (Zeros ar bc) (\<lambda>z. Inr (MZ z))
      | MSM x \<Rightarrow> bindE (fMulXS A x) (\<lambda>C. Inr (MSM C))
      | MPSM x \<Rightarrow> bindE (fMulXPS A x) (\<lambda>C. Inr (MSM C))
      | MI x \<Rightarrow>
          (case A of
             MFM y \<Rightarrow> bindE (Full A) (\<lambda>C. Inr (MFM C))
           | _ \<Rightarrow> bindE (fMulFull A B) (\<lambda>C. Inr (MFM C)))
      | _ \<Rightarrow> bindE (fMulFull A B) (\<lambda>C. Inr (MFM C)))"

definition FMul :: "M \<Rightarrow> M \<Rightarrow> error + M" where
  "FMul A B =
     (let (ar, ac) = Size A; (br, bc) = Size B in
      if ac \<noteq> br then Inl DimMismatch
      else case A of
        MZ x \<Rightarrow> bindE (Zeros ar bc) (\<lambda>z. Inr (MZ z))
      | MSM x \<Rightarrow> bindE (fMulSX x B) (\<lambda>C. Inr (MSM C))
      | MPSM x \<Rightarrow> bindE (fMulPSX x B) (\<lambda>C. Inr (MSM C))
      | MI x \<Rightarrow>
          (case B of
             MSM y \<Rightarrow> bindE (Sparse B) (\<lambda>C. Inr (MSM C))
           | MFM y \<Rightarrow> bindE (Full B) (\<lambda>C. Inr (MFM C))
           | MI y \<Rightarrow> bindE (Eye ar bc) (\<lambda>C. Inr (MI C))
           | _ \<Rightarrow> FMul_B A B)
      | _ \<Rightarrow> FMul_B A B)"

section \<open>The claims' vocabulary\<close>

text \<open>The position \<open>(r, c)\<close> lies within the matrix.\<close>

definition in_bounds :: "M \<Rightarrow> int \<Rightarrow> int \<Rightarrow> bool" where
  "in_bounds m r c = (1 \<le> r \<and> r \<le> fst (Size m) \<and> 1 \<le> c \<and> c \<le> snd (Size m))"

text \<open>
  The entry the product is claimed to have at \<open>(i, j)\<close>: the XOR over \<open>t\<close> of
  \<open>A.At(i, t) AND B.At(t, j)\<close>, with \<open>t\<close> running over the columns of \<open>A\<close>.
\<close>

definition claimed_entry :: "M \<Rightarrow> M \<Rightarrow> int \<Rightarrow> int \<Rightarrow> error + int" where
  "claimed_entry A B i j =
     forE (upto1 (snd (Size A)))
       (\<lambda>t d. bindE (At A i t) (\<lambda>x. bindE (At B t j) (\<lambda>y. Inr (d XOR (x AND y))))) 0"

text \<open>A full polynomial matrix whose slice has one slot for each cell.\<close>

definition wf_PFM :: "PFM \<Rightarrow> bool" where
  "wf_PFM A = (int (length (pfm_v A)) = uint (pfm_r A) * uint (pfm_c A))"

text \<open>
  A polynomial that is not the ring element 0 or 1: it is negative, or its degree is at
  least one.
\<close>

definition not01 :: "int \<Rightarrow> bool" where
  "not01 p = (p < 0 \<or> 1 \<le> poly_degree p)"

text \<open>The kinds the dispatch of \<open>FMul\<close> tests for.\<close>

fun is_Z :: "M \<Rightarrow> bool" where
  "is_Z (MZ x) = True"
| "is_Z _ = False"

fun is_sparse :: "M \<Rightarrow> bool" where
  "is_sparse (MSM x) = True"
| "is_sparse (MPSM x) = True"
| "is_sparse _ = False"

text \<open>The stored bit of the cell \<open>(r, c)\<close> of a full matrix (column-major).\<close>

definition FM_cell :: "FM \<Rightarrow> int \<Rightarrow> int \<Rightarrow> bool" where
  "FM_cell C r c = bit (fm_v C) (nat ((c - 1) * uint (fm_r C) + (r - 1)))"

text \<open>
  What the product with an identity asks of the left operand: it is not a \<open>PSM\<close>; the
  keys of a sparse map are distinct, as those of a Go map are; every in-bounds element
  reads 0 or 1; and a rotation or shift, which is multiplied into a new full matrix, is
  not larger than \<open>NewFull\<close> admits.
\<close>

fun is_PSM :: "M \<Rightarrow> bool" where
  "is_PSM (MPSM x) = True"
| "is_PSM _ = False"

fun wf_M :: "M \<Rightarrow> bool" where
  "wf_M (MSM x) = distinct (map fst (sm_v x))"
| "wf_M _ = True"

definition all_binary :: "M \<Rightarrow> bool" where
  "all_binary A =
     list_all (\<lambda>r. list_all (\<lambda>c. At A r c = Inr 0 \<or> At A r c = Inr 1) (upto1 (snd (Size A))))
       (upto1 (fst (Size A)))"

fun fits_full :: "M \<Rightarrow> bool" where
  "fits_full (MR x) = (r_s x \<le> 65535)"
| "fits_full (MS x) = (s_s x \<le> 65535)"
| "fits_full _ = True"

text \<open>The element at \<open>(r, c)\<close> reads one.\<close>

definition reads_one :: "M \<Rightarrow> int \<Rightarrow> int \<Rightarrow> bool" where
  "reads_one A r c = (At A r c = Inr 1)"

section \<open>The store: maps, slices and big integers as shared objects\<close>

text \<open>
  For the claims about aliasing the code is embedded a second time, with the objects that
  Go shares by reference at addresses of an explicit store: the map of an \<open>SM\<close>
  (\<open>MapW\<close>) and of a \<open>PSM\<close> (\<open>MapP\<close>, whose values are pointers), a \<open>big.Int\<close> (\<open>Big\<close>), and
  the backing array of the slice of a \<open>PFM\<close> (\<open>Slice\<close>, of pointers).  The store is the
  list of the objects allocated so far and an address is a position in it; \<open>make\<close>,
  \<open>new(big.Int)\<close> and \<open>big.NewInt\<close> allocate at its end.  A pointer is an address; one
  that holds no object, or an object of another type, is \<open>nil\<close>.
\<close>

type_synonym addr = nat

datatype obj =
    MapW "(32 word \<times> 8 word) list"
  | MapP "(32 word \<times> addr) list"
  | Big int
  | Slice "addr list"

type_synonym heap = "obj list"





















text \<open>
  A matrix as Go passes it around.  The struct of each of the four concrete kinds has the
  fields \<open>r\<close> and \<open>c\<close>, which no method assigns after construction, and the reference \<open>v\<close>
  to its map, bit vector or slice.  The structural kinds are plain values.
\<close>

record ref =
  ref_r :: "16 word"
  ref_c :: "16 word"
  ref_v :: addr





subsection \<open>The methods of SM and FM\<close>









subsection \<open>The methods of PSM and PFM\<close>









subsection \<open>The methods of the structural kinds\<close>





subsection \<open>The interface M on the store\<close>





subsection \<open>Constructors and converters on the store\<close>







subsection \<open>Multiplication on the store\<close>








subsection \<open>Storage, mutations and reads\<close>










subsection \<open>Stores that have grown by one object\<close>

text \<open>
  \<open>grown h g\<close>: the store \<open>g\<close> is \<open>h\<close> with one more object at its end, the objects of
  \<open>h\<close> being as they were.  \<open>keeps h res\<close>: a computation that returns a store returns
  such a store.  \<open>makes h res\<close>: a routine that returns a matrix and a store returns a
  matrix whose storage is that one new object.
\<close>

definition grown :: "heap \<Rightarrow> heap \<Rightarrow> bool" where
  "grown h g = (length g = Suc (length h) \<and> take (length h) g = h)"


definition makes :: "heap \<Rightarrow> error + ref \<times> heap \<Rightarrow> bool" where
  "makes h res = (case res of Inl e \<Rightarrow> True | Inr (C, g) \<Rightarrow> ref_v C = length h \<and> grown h g)"


section \<open>The field-element helper\<close>

lemma BitLen_nat_gt1: "1 < BitLen_nat n \<longleftrightarrow> 2 \<le> n"
proof -
  have "BitLen_nat n =
      (if n = 0 then 0 else if n div 2 = 0 then 1 else Suc (Suc (BitLen_nat (n div 2 div 2))))"
    by (subst BitLen_nat.simps, subst BitLen_nat.simps) simp
  then show ?thesis
    by (auto split: if_splits)
qed

lemma check01_fails_iff: "failsE (check01 p) \<longleftrightarrow> p < 0 \<or> 1 \<le> poly_degree p"
  by (auto simp: check01_def failsE_def poly_degree_def BitLen_def BitLen_nat_gt1)

lemma check01_ok: "\<not> (p < 0 \<or> 1 \<le> poly_degree p) \<Longrightarrow> check01 p = Inr (of_bool (odd p))"
  by (auto simp: check01_def poly_degree_def BitLen_def BitLen_nat_gt1 Bit_def bit_0)

lemma check01_cases:
  "(check01 p = Inl NotBinary \<and> (p < 0 \<or> 1 \<le> poly_degree p))
   \<or> (check01 p = Inr (of_bool (odd p)) \<and> \<not> (p < 0 \<or> 1 \<le> poly_degree p))"
  using check01_fails_iff [of p] check01_ok [of p]
  by (auto simp: check01_def failsE_def split: if_splits)

section \<open>Reading a sparse polynomial matrix\<close>

text \<open>
  C1. \<open>PSM.At\<close> is documented to return the stored polynomial when it is nonzero and a
  zero otherwise.  The code does the opposite: on a 1 x 1 matrix holding \<open>x\<^sup>2 + 1\<close>
  (the bit pattern 5) it returns a fresh zero and leaves the entry in place, and on an
  absent entry it calls \<open>Sign\<close> on a nil pointer and panics.
\<close>

theorem PSM_At_inverted:
  "PSM_At \<lparr>psm_r = 1, psm_c = 1, psm_v = [(0, 5)]\<rparr> 1 1
      = Inr (0, \<lparr>psm_r = 1, psm_c = 1, psm_v = [(0, 5)]\<rparr>)
   \<and> PSM_At \<lparr>psm_r = 1, psm_c = 1, psm_v = []\<rparr> 1 1 = Inl NilDeref"
  by (simp add: PSM_At_def PSM_index_def bindE_def coord_def)

section \<open>The rotation matrix\<close>

text \<open>
  C5. For \<open>Rol(2, -1)\<close> the claimed rule puts the one of row 1 in column
  \<open>((1 - 1 - 1) mod 2) + 1 = 2\<close>, but \<open>At(1, 2)\<close> is zero: the truncated remainder is
  \<open>-1\<close>, adding one gives 0, and the correction \<open>if r < 0\<close> does not fire.
\<close>

theorem Rol_negative_shift_loses_row:
  "bindE (Rol 2 (- 1)) (\<lambda>rot. R_At rot 1 2) = Inr zeroP
   \<and> (1 - 1 + (- 1)) mod 2 + 1 = (2 :: int)"
  by (simp add: bindE_def Rol_def R_At_def to01_def zeroP_def signed_modulo_int_def)

section \<open>The converters, on a round trip\<close>

text \<open>
  C3. On the 1 x 1 sparse matrix holding a one, \<open>PFull\<close> panics (it reads \<open>At(0, 0)\<close>),
  and the round trip through \<open>PSparse\<close> and back through \<open>Sparse\<close> returns a matrix whose
  element at (1, 1) is zero, where the original has one.
\<close>

theorem round_trip_fails:
  "PFull (MSM \<lparr>sm_r = 1, sm_c = 1, sm_v = [(0, 1)]\<rparr>) = Inl RowOutOfBounds
   \<and> SM_At \<lparr>sm_r = 1, sm_c = 1, sm_v = [(0, 1)]\<rparr> 1 1 = Inr 1
   \<and> bindE (bindE (PSparse (MSM \<lparr>sm_r = 1, sm_c = 1, sm_v = [(0, 1)]\<rparr>)) (\<lambda>P. Sparse (MPSM P)))
        (\<lambda>B. SM_At B 1 1) = Inr 0"
  by code_simp

section \<open>Multiplication\<close>

text \<open>
  C4. The product of the 1 x 3 sparse row (1, 0, 0) with \<open>Rol(3, 1)\<close> has a zero at
  (1, 2), where the XOR of the products \<open>A.At(1, t) AND B.At(t, 2)\<close> is one; and the
  product of a 1 x 2 sparse matrix with a 2 x 1 full matrix panics, because the loop over
  the columns of \<open>B\<close> runs to the column count of \<open>A\<close>.
\<close>

theorem FMul_wrong_product:
  "bindE (Rol 3 1) (\<lambda>B.
     bindE (FMul (MSM \<lparr>sm_r = 1, sm_c = 3, sm_v = [(0, 1)]\<rparr>) (MR B)) (\<lambda>C. At C 1 2)) = Inr 0
   \<and> bindE (Rol 3 1) (\<lambda>B.
       claimed_entry (MSM \<lparr>sm_r = 1, sm_c = 3, sm_v = [(0, 1)]\<rparr>) (MR B) 1 2) = Inr 1
   \<and> bindE (NewFull 2 1) (\<lambda>B.
       FMul (MSM \<lparr>sm_r = 1, sm_c = 2, sm_v = [(0, 1)]\<rparr>) (MFM B)) = Inl ColOutOfBounds"
  by code_simp

text \<open>
  C9. When the column count of \<open>A\<close> differs from the row count of \<open>B\<close>, \<open>FMul\<close> panics
  with the dimension mismatch, whatever the operands hold: no element is read and no
  matrix is made.
\<close>

theorem FMul_dimension_mismatch:
  "snd (Size A) \<noteq> fst (Size B) \<Longrightarrow> FMul A B = Inl DimMismatch"
  by (cases "Size A"; cases "Size B") (simp add: FMul_def)

theorem FMul_dimension_mismatch_witness:
  "snd (Size (MZ \<lparr>z_r = 2, z_c = 3\<rparr>)) \<noteq> fst (Size (MFM \<lparr>fm_r = 2, fm_c = 2, fm_v = 16\<rparr>))
   \<and> FMul (MZ \<lparr>z_r = 2, z_c = 3\<rparr>) (MFM \<lparr>fm_r = 2, fm_c = 2, fm_v = 16\<rparr>) = Inl DimMismatch"
  using FMul_dimension_mismatch [of "MZ \<lparr>z_r = 2, z_c = 3\<rparr>" "MFM \<lparr>fm_r = 2, fm_c = 2, fm_v = 16\<rparr>"]
  by (simp add: FM_Size_def)

section \<open>Loops and cells\<close>

lemma set_below: "set (below n) = {i. 0 \<le> i \<and> i < n}"
proof (rule set_eqI)
  fix x
  show "x \<in> set (below n) \<longleftrightarrow> x \<in> {i. 0 \<le> i \<and> i < n}"
  proof
    assume "x \<in> set (below n)"
    then obtain k where "x = int k" "k < nat n"
      by (auto simp: below_def)
    then show "x \<in> {i. 0 \<le> i \<and> i < n}"
      by (simp add: zless_nat_eq_int_zless)
  next
    assume "x \<in> {i. 0 \<le> i \<and> i < n}"
    then have "nat x \<in> {0..<nat n}" and "int (nat x) = x"
      by simp_all
    then have "x \<in> int ` {0..<nat n}"
      by (metis imageI)
    then show "x \<in> set (below n)"
      by (simp add: below_def)
  qed
qed

lemma forE_fails_iff:
  assumes "\<And>x s. x \<in> set xs \<Longrightarrow> failsE (body x s) = F x"
  shows "failsE (forE xs body s) \<longleftrightarrow> (\<exists>x\<in>set xs. F x)"
  using assms
proof (induction xs arbitrary: s)
  case Nil
  then show ?case by (simp add: failsE_def)
next
  case (Cons x xs)
  have hx: "failsE (body x s) = F x" using Cons.prems by simp
  show ?case
  proof (cases "body x s")
    case (Inl e)
    then show ?thesis using hx by (simp add: failsE_def)
  next
    case (Inr s')
    then have "\<not> F x" using hx by (simp add: failsE_def)
    moreover have "failsE (forE xs body s') \<longleftrightarrow> (\<exists>x\<in>set xs. F x)"
      using Cons.IH Cons.prems by simp
    ultimately show ?thesis using Inr by simp
  qed
qed

lemma PFM_cell:
  assumes "wf_PFM A" "0 \<le> r" "r < uint (pfm_r A)" "0 \<le> c" "c < uint (pfm_c A)"
  shows "At (MPFM A) (r + 1) (c + 1) = Inr (pfm_v A ! nat (c * uint (pfm_r A) + r))"
proof -
  have "c * uint (pfm_r A) + r < (c + 1) * uint (pfm_r A)"
    using assms by (simp add: algebra_simps)
  also have "\<dots> \<le> uint (pfm_c A) * uint (pfm_r A)"
    using assms by (intro mult_right_mono) auto
  finally have "c * uint (pfm_r A) + r < int (length (pfm_v A))"
    using assms by (simp add: wf_PFM_def mult.commute)
  then show ?thesis
    using assms by (simp add: PFM_At_def PFM_index_def bindE_def slice_get_def)
qed

lemma PFM_cells_cover:
  assumes "wf_PFM A"
  shows "(\<exists>r\<in>set (below (uint (pfm_r A))). \<exists>c\<in>set (below (uint (pfm_c A))).
            P (pfm_v A ! nat (c * uint (pfm_r A) + r))) \<longleftrightarrow> (\<exists>p\<in>set (pfm_v A). P p)"
proof
  assume "\<exists>r\<in>set (below (uint (pfm_r A))). \<exists>c\<in>set (below (uint (pfm_c A))).
            P (pfm_v A ! nat (c * uint (pfm_r A) + r))"
  then obtain r c where rc: "0 \<le> r" "r < uint (pfm_r A)" "0 \<le> c" "c < uint (pfm_c A)"
    and P: "P (pfm_v A ! nat (c * uint (pfm_r A) + r))"
    by (auto simp: set_below)
  have "c * uint (pfm_r A) + r < (c + 1) * uint (pfm_r A)"
    using rc by (simp add: algebra_simps)
  also have "\<dots> \<le> uint (pfm_c A) * uint (pfm_r A)"
    using rc by (intro mult_right_mono) auto
  finally have "nat (c * uint (pfm_r A) + r) < length (pfm_v A)"
    using assms rc by (simp add: wf_PFM_def mult.commute nat_less_iff)
  then show "\<exists>p\<in>set (pfm_v A). P p"
    using P nth_mem by blast
next
  assume "\<exists>p\<in>set (pfm_v A). P p"
  then obtain i where i: "i < length (pfm_v A)" and P: "P (pfm_v A ! i)"
    by (auto simp: in_set_conv_nth)
  define R where "R = uint (pfm_r A)"
  have len: "int (length (pfm_v A)) = R * uint (pfm_c A)"
    using assms by (simp add: wf_PFM_def R_def)
  have Rpos: "0 < R"
  proof (rule ccontr)
    assume "\<not> 0 < R"
    then have "R = 0" using uint_ge_0 [of "pfm_r A"] by (simp add: R_def)
    then show False using len i by simp
  qed
  define r where "r = int i mod R"
  define c where "c = int i div R"
  have "0 \<le> r" "r < R" using Rpos by (simp_all add: r_def)
  moreover have "0 \<le> c" using Rpos by (simp add: c_def pos_imp_zdiv_nonneg_iff)
  moreover have "c < uint (pfm_c A)"
  proof (rule ccontr)
    assume "\<not> c < uint (pfm_c A)"
    then have "R * uint (pfm_c A) \<le> R * c"
      using Rpos by (intro mult_left_mono) auto
    moreover have "R * c \<le> int i"
      using mult_div_mod_eq [of R "int i"] pos_mod_sign [of R "int i"] Rpos
      unfolding c_def by linarith
    ultimately show False
      using i len by simp
  qed
  moreover have "nat (c * R + r) = i"
    by (simp add: c_def r_def)
  ultimately show "\<exists>r\<in>set (below (uint (pfm_r A))). \<exists>c\<in>set (below (uint (pfm_c A))).
            P (pfm_v A ! nat (c * uint (pfm_r A) + r))"
    using P unfolding set_below R_def by (intro bexI [of _ r] bexI [of _ c]) auto
qed

lemma failsE_bindE_Inr: "failsE (bindE m (\<lambda>v. Inr (f v))) = failsE m"
  by (cases m) (simp_all add: failsE_def bindE_def)

lemma uint16_le: "\<not> uint (w :: 16 word) > 65535"
  using uint_lt2p [of w] by simp

lemma Sparse_PFM_fails_iff:
  assumes "wf_PFM A"
  shows "failsE (Sparse (MPFM A)) \<longleftrightarrow> (\<exists>p\<in>set (pfm_v A). not01 p)"
proof -
  let ?rows = "uint (pfm_r A)" and ?cols = "uint (pfm_c A)"
  let ?inner = "\<lambda>r acc. forE (below ?cols) (\<lambda>c acc.
                          bindE (At (MPFM A) (r + 1) (c + 1)) (\<lambda>p. bindE (check01 p) (\<lambda>b.
                            if b \<noteq> 0 then Inr (put (word_of_int (push_bit 16 c) OR word_of_int r :: 32 word) (1 :: 8 word) acc)
                            else Inr acc))) acc"
  have inner: "failsE (?inner r acc) \<longleftrightarrow> (\<exists>c\<in>set (below ?cols). not01 (pfm_v A ! nat (c * ?rows + r)))"
    if "r \<in> set (below ?rows)" for r acc
  proof (rule forE_fails_iff)
    fix c s assume "c \<in> set (below ?cols)"
    then have "At (MPFM A) (r + 1) (c + 1) = Inr (pfm_v A ! nat (c * ?rows + r))"
      using that assms by (intro PFM_cell) (auto simp: set_below)
    then show "failsE (bindE (At (MPFM A) (r + 1) (c + 1)) (\<lambda>p. bindE (check01 p) (\<lambda>b.
                            if b \<noteq> 0 then Inr (put (word_of_int (push_bit 16 c) OR word_of_int r :: 32 word) (1 :: 8 word) s)
                            else Inr s))) = not01 (pfm_v A ! nat (c * ?rows + r))"
      using check01_cases [of "pfm_v A ! nat (c * ?rows + r)"]
      by (auto simp: bindE_def failsE_def not01_def split: if_splits)
  qed
  have "failsE (forE (below ?rows) ?inner []) \<longleftrightarrow>
      (\<exists>r\<in>set (below ?rows). \<exists>c\<in>set (below ?cols). not01 (pfm_v A ! nat (c * ?rows + r)))"
    by (rule forE_fails_iff) (rule inner)
  then have "failsE (forE (below ?rows) ?inner []) \<longleftrightarrow> (\<exists>p\<in>set (pfm_v A). not01 p)"
    using PFM_cells_cover [OF assms, of not01] by simp
  moreover have "Sparse (MPFM A) = bindE (forE (below ?rows) ?inner [])
      (\<lambda>v. Inr \<lparr>sm_r = word_of_int ?rows, sm_c = word_of_int ?cols, sm_v = v\<rparr>)"
    by (simp add: Sparse_def PFM_Size_def uint16_le Let_def del: At.simps)
  then have "failsE (Sparse (MPFM A)) = failsE (forE (below ?rows) ?inner [])"
    by (simp add: failsE_bindE_Inr)
  ultimately show ?thesis by simp
qed


lemma Full_PFM_fails_iff:
  assumes "wf_PFM A"
  shows "failsE (Full (MPFM A)) \<longleftrightarrow> (\<exists>p\<in>set (pfm_v A). not01 p)"
proof -
  let ?rows = "uint (pfm_r A)" and ?cols = "uint (pfm_c A)"
  let ?inner = "\<lambda>r acc. forE (below ?cols) (\<lambda>c acc.
                          bindE (At (MPFM A) (r + 1) (c + 1)) (\<lambda>p. bindE (check01 p) (\<lambda>b.
                            if b \<noteq> 0 then Inr (SetBit acc (c * ?rows + r) 1)
                            else Inr acc))) acc"
  have inner: "failsE (?inner r acc) \<longleftrightarrow> (\<exists>c\<in>set (below ?cols). not01 (pfm_v A ! nat (c * ?rows + r)))"
    if "r \<in> set (below ?rows)" for r acc
  proof (rule forE_fails_iff)
    fix c s assume "c \<in> set (below ?cols)"
    then have "At (MPFM A) (r + 1) (c + 1) = Inr (pfm_v A ! nat (c * ?rows + r))"
      using that assms by (intro PFM_cell) (auto simp: set_below)
    then show "failsE (bindE (At (MPFM A) (r + 1) (c + 1)) (\<lambda>p. bindE (check01 p) (\<lambda>b.
                            if b \<noteq> 0 then Inr (SetBit s (c * ?rows + r) 1)
                            else Inr s))) = not01 (pfm_v A ! nat (c * ?rows + r))"
      using check01_cases [of "pfm_v A ! nat (c * ?rows + r)"]
      by (auto simp: bindE_def failsE_def not01_def split: if_splits)
  qed
  have "failsE (forE (below ?rows) ?inner (SetBit 0 (?rows * ?cols) 1)) \<longleftrightarrow>
      (\<exists>r\<in>set (below ?rows). \<exists>c\<in>set (below ?cols). not01 (pfm_v A ! nat (c * ?rows + r)))"
    by (rule forE_fails_iff) (rule inner)
  then have "failsE (forE (below ?rows) ?inner (SetBit 0 (?rows * ?cols) 1))
      \<longleftrightarrow> (\<exists>p\<in>set (pfm_v A). not01 p)"
    using PFM_cells_cover [OF assms, of not01] by simp
  moreover have "Full (MPFM A) = bindE (forE (below ?rows) ?inner (SetBit 0 (?rows * ?cols) 1))
      (\<lambda>v. Inr \<lparr>fm_r = word_of_int ?rows, fm_c = word_of_int ?cols, fm_v = v\<rparr>)"
    by (simp add: Full_def PFM_Size_def uint16_le Let_def del: At.simps)
  then have "failsE (Full (MPFM A)) = failsE (forE (below ?rows) ?inner (SetBit 0 (?rows * ?cols) 1))"
    by (simp add: failsE_bindE_Inr)
  ultimately show ?thesis by simp
qed

section \<open>Multiplication by a zero matrix\<close>

lemma uint16_of_int: "0 \<le> m \<Longrightarrow> m \<le> 65535 \<Longrightarrow> uint (word_of_int m :: 16 word) = m"
  by (simp add: uint_word_of_int take_bit_eq_mod)

lemma uint16_bound: "uint (w :: 16 word) \<le> 65535"
  using uint_lt2p [of w] by simp

lemma sparse_by_Z:
  assumes "1 \<le> m" "m \<le> 65535" "1 \<le> n" "n \<le> 65535"
  shows "in_bounds (MSM \<lparr>sm_r = word_of_int m, sm_c = word_of_int n, sm_v = []\<rparr>) r c \<Longrightarrow>
     At (MSM \<lparr>sm_r = word_of_int m, sm_c = word_of_int n, sm_v = []\<rparr>) r c = Inr zeroP"
  using assms
  by (simp add: in_bounds_def SM_Size_def SM_At_def SM_index_def bindE_def lookup0_def uint16_of_int)

text \<open>
  C8, as the code has it.  For operands of sizes m x k and k x n with m and n positive,
  one of them a \<open>Z\<close>: when \<open>A\<close> is sparse (\<open>SM\<close> or \<open>PSM\<close>, so \<open>B\<close> is the \<open>Z\<close>) and
  n is at most 65535, \<open>FMul\<close> returns the empty m x n \<open>SM\<close>; when \<open>A\<close> is not sparse it
  returns the m x n \<open>Z\<close>.  Either way every in-bounds element of the result reads zero.
\<close>

theorem FMul_zero_operand:
  assumes "Size A = (m, k)" and "Size B = (k, n)" and "1 \<le> m" and "1 \<le> n"
    and "is_Z A \<or> is_Z B" and "is_sparse A \<Longrightarrow> n \<le> 65535"
  shows "\<exists>C. FMul A B = Inr C \<and> Size C = (m, n)
     \<and> (if is_sparse A
        then C = MSM \<lparr>sm_r = word_of_int m, sm_c = word_of_int n, sm_v = []\<rparr>
        else C = MZ \<lparr>z_r = m, z_c = n\<rparr>)
     \<and> (\<forall>r c. in_bounds C r c \<longrightarrow> At C r c = Inr zeroP)"
proof (cases "is_sparse A")
  case True
  then obtain X where B: "B = MZ X"
    using assms(5) by (cases A; cases B) auto
  have m: "m \<le> 65535"
    using True assms(1) uint16_bound by (cases A) (auto simp: SM_Size_def PSM_Size_def)
  have n: "n \<le> 65535"
    using True assms(6) by simp
  let ?C = "\<lparr>sm_r = word_of_int m, sm_c = word_of_int n, sm_v = []\<rparr>"
  have "FMul A B = Inr (MSM ?C)"
    using True assms(1-4) m n B
    by (cases A) (auto simp: FMul_def fMulSX_def fMulPSX_def NewSparse_def bindE_def)
  moreover have "Size (MSM ?C) = (m, n)"
    using assms(3,4) m n by (simp add: SM_Size_def uint16_of_int)
  moreover have "\<forall>r c. in_bounds (MSM ?C) r c \<longrightarrow> At (MSM ?C) r c = Inr zeroP"
    using sparse_by_Z [OF assms(3) m assms(4) n] by blast
  ultimately show ?thesis
    using True by simp
next
  case False
  let ?C = "\<lparr>z_r = m, z_c = n\<rparr>"
  have "FMul A B = Inr (MZ ?C)"
    using False assms(1-5)
    by (cases A; cases B) (auto simp: FMul_def FMul_B_def Zeros_def bindE_def)
  moreover have "\<forall>r c. in_bounds (MZ ?C) r c \<longrightarrow> At (MZ ?C) r c = Inr zeroP"
    by (simp add: in_bounds_def Z_At_def)
  ultimately show ?thesis
    using False by simp
qed

text \<open>
  A sparse matrix times a \<open>Z\<close> goes to \<open>fMulSX\<close>: with 65536 columns on the right the
  allocation of the result panics, and with one column the result is an \<open>SM\<close>, not a \<open>Z\<close>.
\<close>

theorem FMul_sparse_by_zero_not_Z:
  "FMul (MSM \<lparr>sm_r = 1, sm_c = 1, sm_v = []\<rparr>) (MZ \<lparr>z_r = 1, z_c = 65536\<rparr>) = Inl SizeTooLarge
   \<and> FMul (MSM \<lparr>sm_r = 1, sm_c = 1, sm_v = []\<rparr>) (MZ \<lparr>z_r = 1, z_c = 1\<rparr>)
       = Inr (MSM \<lparr>sm_r = 1, sm_c = 1, sm_v = []\<rparr>)"
  by (simp add: bindE_def FMul_def fMulSX_def SM_Size_def NewSparse_def)

theorem FMul_zero_operand_witness:
  "Size (MSM \<lparr>sm_r = 2, sm_c = 3, sm_v = [(0, 1)]\<rparr>) = (2, 3)
   \<and> Size (MZ \<lparr>z_r = 3, z_c = 2\<rparr>) = (3, 2)
   \<and> is_Z (MZ \<lparr>z_r = 3, z_c = 2\<rparr>)
   \<and> is_sparse (MSM \<lparr>sm_r = 2, sm_c = 3, sm_v = [(0, 1)]\<rparr>)
   \<and> FMul (MSM \<lparr>sm_r = 2, sm_c = 3, sm_v = [(0, 1)]\<rparr>) (MZ \<lparr>z_r = 3, z_c = 2\<rparr>)
       = Inr (MSM \<lparr>sm_r = 2, sm_c = 2, sm_v = []\<rparr>)
   \<and> Size (MFM \<lparr>fm_r = 2, fm_c = 3, fm_v = 65\<rparr>) = (2, 3)
   \<and> FMul (MFM \<lparr>fm_r = 2, fm_c = 3, fm_v = 65\<rparr>) (MZ \<lparr>z_r = 3, z_c = 2\<rparr>)
       = Inr (MZ \<lparr>z_r = 2, z_c = 2\<rparr>)"
proof -
  let ?A = "MSM \<lparr>sm_r = 2, sm_c = 3, sm_v = [(0, 1)]\<rparr>" and ?B = "MZ \<lparr>z_r = 3, z_c = 2\<rparr>"
  let ?F = "MFM \<lparr>fm_r = 2, fm_c = 3, fm_v = 65\<rparr>"
  have a: "Size ?A = (2, 3)" by (simp add: SM_Size_def)
  have f: "Size ?F = (2, 3)" by (simp add: FM_Size_def)
  have b: "Size ?B = (3, 2)" by simp
  have z: "is_Z ?A \<or> is_Z ?B" "is_Z ?F \<or> is_Z ?B" by simp_all
  show ?thesis
    using FMul_zero_operand [OF a b _ _ z(1)] FMul_zero_operand [OF f b _ _ z(2)] a b f
    by simp
qed

section \<open>Packed coordinates\<close>

lemma bit_lt16: "0 \<le> c \<Longrightarrow> c < 65536 \<Longrightarrow> bit (c :: int) n \<Longrightarrow> n < 16"
proof -
  assume "0 \<le> c" "c < 65536" "bit c n"
  then have "take_bit 16 c = c"
    by (simp add: take_bit_int_eq_self)
  then have "bit (take_bit 16 c) n"
    using \<open>bit c n\<close> by simp
  then show ?thesis
    by (simp add: bit_take_bit_iff)
qed

lemma ffff_mask: "(0xffff :: 32 word) = mask 16"
  by (simp add: mask_eq_exp_minus_1)

lemma coord_col:
  assumes "0 \<le> r" "r < 65536" "0 \<le> c" "c < 65536"
  shows "drop_bit 16 (coord r c) = word_of_int c"
  unfolding coord_def
  apply (rule bit_word_eqI)
  using assms
  by (auto simp: bit_simps dest: bit_lt16)

lemma coord_row:
  assumes "0 \<le> r" "r < 65536" "0 \<le> c" "c < 65536"
  shows "coord r c AND 0xffff = word_of_int r"
  unfolding coord_def ffff_mask
  apply (rule bit_word_eqI)
  using assms
  by (auto simp: bit_simps dest: bit_lt16)

lemma word32_less: "0 \<le> a \<Longrightarrow> a < b \<Longrightarrow> b \<le> 65536 \<Longrightarrow> (word_of_int a :: 32 word) < word_of_int b"
  by (simp add: word_less_def uint_word_of_int take_bit_eq_mod)

lemma coord_inj:
  assumes "0 \<le> r" "r < 65536" "0 \<le> c" "c < 65536" "0 \<le> r'" "r' < 65536" "0 \<le> c'" "c' < 65536"
    and "coord r c = coord r' c'"
  shows "r = r' \<and> c = c'"
proof -
  have "(word_of_int c :: 32 word) = word_of_int c'"
    using coord_col [of r c] coord_col [of r' c'] assms by simp
  moreover have "(word_of_int r :: 32 word) = word_of_int r'"
    using coord_row [of r c] coord_row [of r' c'] assms by simp
  ultimately show ?thesis
    using assms by (simp add: word_of_int_eq_iff take_bit_eq_mod)
qed


section \<open>A sparse matrix times an identity\<close>

lemma map_of_put: "map_of (put k x m) = (map_of m)(k \<mapsto> x)"
  by (simp add: put_def update_conv')

lemma put_loop:
  "\<exists>v. forE xs (\<lambda>(j, a) acc. if P j a then Inr (put j (1 :: 8 word) acc) else Inr acc) acc0 = Inr v
     \<and> (\<forall>j. map_of v j = (if (\<exists>a. (j, a) \<in> set xs \<and> P j a) then Some 1 else map_of acc0 j))"
proof (induction xs arbitrary: acc0)
  case Nil
  then show ?case by simp
next
  case (Cons x xs)
  obtain j a where x: "x = (j, a)" by (cases x)
  let ?acc1 = "if P j a then put j 1 acc0 else acc0"
  obtain v where v: "forE xs (\<lambda>(j, a) acc. if P j a then Inr (put j (1 :: 8 word) acc) else Inr acc) ?acc1 = Inr v"
    and m: "\<forall>i. map_of v i = (if (\<exists>a. (i, a) \<in> set xs \<and> P i a) then Some 1 else map_of ?acc1 i)"
    using Cons.IH [of ?acc1] by blast
  have "forE (x # xs) (\<lambda>(j, a) acc. if P j a then Inr (put j (1 :: 8 word) acc) else Inr acc) acc0 = Inr v"
    using v x by (cases "P j a") simp_all
  moreover have "\<forall>i. map_of v i = (if (\<exists>a. (i, a) \<in> set (x # xs) \<and> P i a) then Some 1 else map_of acc0 i)"
    using m x by (auto simp: map_of_put)
  ultimately show ?case by blast
qed

lemma lookup0_nonzero:
  assumes "distinct (map fst xs)"
  shows "lookup0 xs j \<noteq> (0 :: 8 word) \<longleftrightarrow> (\<exists>a. (j, a) \<in> set xs \<and> a \<noteq> 0)"
proof (cases "map_of xs j")
  case None
  then have "\<And>a. (j, a) \<notin> set xs"
    by (metis map_of_eq_None_iff fst_conv image_eqI)
  then show ?thesis using None by (simp add: lookup0_def)
next
  case (Some a)
  then have "\<And>b. (j, b) \<in> set xs \<longleftrightarrow> b = a"
    using assms by (metis map_of_eq_Some_iff option.inject)
  then show ?thesis using Some by (simp add: lookup0_def)
qed

lemma FMul_SM_Eye:
  assumes "distinct (map fst (sm_v A))" and "1 \<le> uint (sm_r A)" and "1 \<le> uint (sm_c A)"
  shows "\<exists>C. FMul (MSM A) (MI \<lparr>i_r = uint (sm_c A), i_c = uint (sm_c A)\<rparr>) = Inr (MSM C)
     \<and> sm_r C = sm_r A \<and> sm_c C = sm_c A \<and> (\<forall>r c. SM_At C r c = SM_At A r c)"
proof -
  let ?m = "uint (sm_r A)" and ?k = "uint (sm_c A)"
  let ?P = "\<lambda>j (a :: 8 word). a \<noteq> 0 \<and> drop_bit 16 j < (word_of_int ?k :: 32 word)
      \<and> j AND 0xffff < (word_of_int ?m :: 32 word)"
  obtain v where v: "forE (sm_v A) (\<lambda>(j, a) acc. if ?P j a then Inr (put j (1 :: 8 word) acc) else Inr acc) [] = Inr v"
    and m: "\<forall>j. map_of v j = (if (\<exists>a. (j, a) \<in> set (sm_v A) \<and> ?P j a) then Some 1 else map_of [] j)"
    using put_loop [of "sm_v A" ?P "[]"] by blast
  let ?C = "\<lparr>sm_r = sm_r A, sm_c = sm_c A, sm_v = v\<rparr>"
  have bounds: "?m \<le> 65535" "?k \<le> 65535"
    by (rule uint16_bound)+
  have "FMul (MSM A) (MI \<lparr>i_r = ?k, i_c = ?k\<rparr>) = Inr (MSM ?C)"
    using assms(2,3) bounds v
    by (simp add: FMul_def fMulSX_def SM_Size_def NewSparse_def bindE_def)
  moreover have "SM_At ?C r c = SM_At A r c" for r c
  proof (cases "SM_index A r c")
    case (Inl e)
    then show ?thesis
      by (simp add: SM_At_def SM_index_def bindE_def split: if_splits)
  next
    case (Inr j)
    then have rc: "0 \<le> r - 1" "r - 1 < ?m" "0 \<le> c - 1" "c - 1 < ?k" and j: "j = coord (r - 1) (c - 1)"
      by (auto simp: SM_index_def split: if_splits)
    have "drop_bit 16 j = word_of_int (c - 1)" "j AND 0xffff = word_of_int (r - 1)"
      using rc bounds j coord_col [of "r - 1" "c - 1"] coord_row [of "r - 1" "c - 1"] by simp_all
    then have "drop_bit 16 j < (word_of_int ?k :: 32 word)" "j AND 0xffff < (word_of_int ?m :: 32 word)"
      using rc bounds word32_less [of "c - 1" ?k] word32_less [of "r - 1" ?m] by simp_all
    then have "lookup0 v j \<noteq> 0 \<longleftrightarrow> (\<exists>a. (j, a) \<in> set (sm_v A) \<and> a \<noteq> 0)"
      using m by (simp add: lookup0_def)
    then have "lookup0 v j \<noteq> 0 \<longleftrightarrow> lookup0 (sm_v A) j \<noteq> 0"
      using lookup0_nonzero [OF assms(1)] by simp
    moreover have "SM_index ?C r c = SM_index A r c"
      by (simp add: SM_index_def)
    ultimately show ?thesis
      using Inr by (simp add: SM_At_def bindE_def)
  qed
  ultimately show ?thesis
    by (intro exI [of _ ?C]) simp
qed


section \<open>The dense triple loop against an identity\<close>

lemma check01_to01: "check01 (to01 b) = Inr (of_bool b)"
  by (simp add: check01_def to01_def oneP_def zeroP_def BitLen_def BitLen_nat.simps Bit_def)

lemma check01_0: "check01 0 = Inr 0" and check01_1: "check01 1 = Inr 1"
  using check01_to01 [of False] check01_to01 [of True]
  by (simp_all add: to01_def oneP_def zeroP_def)

lemma set_upto1: "set (upto1 n) = {1..n}"
proof (rule set_eqI)
  fix x
  have "x \<in> (\<lambda>i. i + 1) ` {i. 0 \<le> i \<and> i < n}" if "x \<in> {1..n}"
    using that by (intro image_eqI [of _ _ "x - 1"]) auto
  then show "x \<in> set (upto1 n) \<longleftrightarrow> x \<in> {1..n}"
    by (auto simp: upto1_def set_below)
qed

lemma distinct_upto1: "distinct (upto1 n)"
  by (simp add: upto1_def below_def distinct_map inj_on_def)

lemma dot_loop:
  assumes bin: "\<And>i. 1 \<le> i \<Longrightarrow> i \<le> k \<Longrightarrow> At A r i = Inr 0 \<or> At A r i = Inr 1"
    and c: "1 \<le> c" "c \<le> k"
  shows "distinct xs \<Longrightarrow> set xs \<subseteq> {1..k} \<Longrightarrow>
     forE xs (\<lambda>i d.
         bindE (At A r i) (\<lambda>x. bindE (check01 x) (\<lambda>a.
         bindE (At (MI \<lparr>i_r = k, i_c = k\<rparr>) i c) (\<lambda>y. bindE (check01 y) (\<lambda>b.
           Inr (d XOR (a AND b))))))) (d0 :: 8 word)
       = Inr (if c \<in> set xs \<and> reads_one A r c then d0 XOR 1 else d0)"
proof (induction xs arbitrary: d0)
  case Nil
  then show ?case by simp
next
  case (Cons i xs)
  have i: "1 \<le> i" "i \<le> k" and xs: "distinct xs" "set xs \<subseteq> {1..k}" "i \<notin> set xs"
    using Cons.prems by auto
  have y: "At (MI \<lparr>i_r = k, i_c = k\<rparr>) i c = Inr (to01 (i = c))"
    using i c by (simp add: I_At_def)
  have step: "bindE (At A r i) (\<lambda>x. bindE (check01 x) (\<lambda>a.
         bindE (At (MI \<lparr>i_r = k, i_c = k\<rparr>) i c) (\<lambda>y. bindE (check01 y) (\<lambda>b.
           Inr (d0 XOR (a AND b))))))
      = Inr (if i = c \<and> reads_one A r c then d0 XOR 1 else d0)"
    using bin [OF i] y
    by (auto simp: bindE_def check01_0 check01_1 check01_to01 reads_one_def)
  show ?case
    using step Cons.IH [OF xs(1,2)] xs(3)
    by (simp del: At.simps) auto
qed

lemma idx_inj:
  assumes "0 < (m :: int)" "0 \<le> r" "r < m" "0 \<le> r'" "r' < m" "c * m + r = c' * m + r'"
  shows "r = r' \<and> c = c'"
proof -
  have "(c * m + r) div m = c"
    using assms(1,2,3) by simp
  moreover have "(c' * m + r') div m = c'"
    using assms(1,4,5) by simp
  moreover have "(c * m + r) mod m = r"
    using assms(1,2,3) by simp
  moreover have "(c' * m + r') mod m = r'"
    using assms(1,4,5) by simp
  ultimately show ?thesis
    using assms(6) by simp
qed

lemma bit_SetBit: "0 \<le> i \<Longrightarrow> bit (SetBit v i (of_bool b)) n = (if n = nat i then b else bit v n)"
  by (auto simp: SetBit_def bit_simps)

lemma FM_SetAt_cell:
  assumes "1 \<le> r" "r \<le> uint (fm_r C)" "1 \<le> c" "c \<le> uint (fm_c C)"
  shows "\<exists>C'. FM_SetAt C r c (to01 b) = Inr C' \<and> fm_r C' = fm_r C \<and> fm_c C' = fm_c C
     \<and> (\<forall>r' c'. 1 \<le> r' \<and> r' \<le> uint (fm_r C) \<and> 1 \<le> c' \<longrightarrow>
           FM_cell C' r' c' = (if r' = r \<and> c' = c then b else FM_cell C r' c'))"
proof -
  let ?m = "uint (fm_r C)"
  let ?i = "(c - 1) * ?m + (r - 1)"
  let ?C' = "C\<lparr>fm_v := SetBit (fm_v C) ?i (of_bool b)\<rparr>"
  have i0: "0 \<le> ?i"
    using assms by simp
  have set: "FM_SetAt C r c (to01 b) = Inr ?C'"
    using assms by (simp add: FM_SetAt_def FM_index_def bindE_def check01_to01)
  have "FM_cell ?C' r' c' = (if r' = r \<and> c' = c then b else FM_cell C r' c')"
    if "1 \<le> r'" "r' \<le> ?m" "1 \<le> c'" for r' c'
  proof -
    have j0: "0 \<le> (c' - 1) * ?m + (r' - 1)"
      using that by simp
    have "nat ((c' - 1) * ?m + (r' - 1)) = nat ?i \<longleftrightarrow> r' = r \<and> c' = c"
    proof
      assume "nat ((c' - 1) * ?m + (r' - 1)) = nat ?i"
      then have "(c' - 1) * ?m + (r' - 1) = (c - 1) * ?m + (r - 1)"
        using i0 j0 by linarith
      then have "r' - 1 = r - 1 \<and> c' - 1 = c - 1"
        using assms that by (intro idx_inj [of ?m]) auto
      then show "r' = r \<and> c' = c" by simp
    qed auto
    then show ?thesis
      using i0 by (simp add: FM_cell_def bit_SetBit)
  qed
  then show ?thesis
    using set by (intro exI [of _ ?C']) simp
qed


lemma row_loop:
  assumes bin: "\<And>r i. 1 \<le> r \<Longrightarrow> r \<le> m \<Longrightarrow> 1 \<le> i \<Longrightarrow> i \<le> k \<Longrightarrow> At A r i = Inr 0 \<or> At A r i = Inr 1"
    and c: "1 \<le> c" "c \<le> k"
  shows "set rs \<subseteq> {1..m} \<Longrightarrow> uint (fm_r C0) = m \<Longrightarrow> uint (fm_c C0) = k \<Longrightarrow>
     \<exists>C. forE rs (\<lambda>r C.
            bindE (forE (upto1 k) (\<lambda>i d.
                     bindE (At A r i) (\<lambda>x. bindE (check01 x) (\<lambda>a.
                     bindE (At (MI \<lparr>i_r = k, i_c = k\<rparr>) i c) (\<lambda>y. bindE (check01 y) (\<lambda>b.
                       Inr (d XOR (a AND b))))))) (0 :: 8 word))
              (\<lambda>d. FM_SetAt C r c (to01 (d \<noteq> 0)))) C0 = Inr C
        \<and> fm_r C = fm_r C0 \<and> fm_c C = fm_c C0
        \<and> (\<forall>r' c'. 1 \<le> r' \<and> r' \<le> m \<and> 1 \<le> c' \<longrightarrow>
              FM_cell C r' c' = (if c' = c \<and> r' \<in> set rs then reads_one A r' c else FM_cell C0 r' c'))"
proof (induction rs arbitrary: C0)
  case Nil
  then show ?case by simp
next
  case (Cons r rs)
  have r: "1 \<le> r" "r \<le> m" and rs: "set rs \<subseteq> {1..m}"
    using Cons.prems by auto
  have dot: "forE (upto1 k) (\<lambda>i d.
                     bindE (At A r i) (\<lambda>x. bindE (check01 x) (\<lambda>a.
                     bindE (At (MI \<lparr>i_r = k, i_c = k\<rparr>) i c) (\<lambda>y. bindE (check01 y) (\<lambda>b.
                       Inr (d XOR (a AND b))))))) (0 :: 8 word)
      = Inr (of_bool (reads_one A r c))"
    using dot_loop [of k A r c "upto1 k" 0, OF bin [OF r] c distinct_upto1] c
    by (simp add: set_upto1)
  obtain C1 where C1: "FM_SetAt C0 r c (to01 (reads_one A r c)) = Inr C1"
    and d1: "fm_r C1 = fm_r C0" "fm_c C1 = fm_c C0"
    and cell1: "\<forall>r' c'. 1 \<le> r' \<and> r' \<le> m \<and> 1 \<le> c' \<longrightarrow>
           FM_cell C1 r' c' = (if r' = r \<and> c' = c then reads_one A r c else FM_cell C0 r' c')"
    using FM_SetAt_cell [of r C0 c "reads_one A r c"] r c Cons.prems(2,3) by auto
  obtain C where C: "forE rs (\<lambda>r C.
            bindE (forE (upto1 k) (\<lambda>i d.
                     bindE (At A r i) (\<lambda>x. bindE (check01 x) (\<lambda>a.
                     bindE (At (MI \<lparr>i_r = k, i_c = k\<rparr>) i c) (\<lambda>y. bindE (check01 y) (\<lambda>b.
                       Inr (d XOR (a AND b))))))) (0 :: 8 word))
              (\<lambda>d. FM_SetAt C r c (to01 (d \<noteq> 0)))) C1 = Inr C"
    and d: "fm_r C = fm_r C1" "fm_c C = fm_c C1"
    and cell: "\<forall>r' c'. 1 \<le> r' \<and> r' \<le> m \<and> 1 \<le> c' \<longrightarrow>
              FM_cell C r' c' = (if c' = c \<and> r' \<in> set rs then reads_one A r' c else FM_cell C1 r' c')"
    using Cons.IH [of C1] rs d1 Cons.prems(2,3) by auto
  have "forE (r # rs) (\<lambda>r C.
            bindE (forE (upto1 k) (\<lambda>i d.
                     bindE (At A r i) (\<lambda>x. bindE (check01 x) (\<lambda>a.
                     bindE (At (MI \<lparr>i_r = k, i_c = k\<rparr>) i c) (\<lambda>y. bindE (check01 y) (\<lambda>b.
                       Inr (d XOR (a AND b))))))) (0 :: 8 word))
              (\<lambda>d. FM_SetAt C r c (to01 (d \<noteq> 0)))) C0 = Inr C"
    using dot C1 C by (simp add: bindE_def del: At.simps)
  moreover have "\<forall>r' c'. 1 \<le> r' \<and> r' \<le> m \<and> 1 \<le> c' \<longrightarrow>
              FM_cell C r' c' = (if c' = c \<and> r' \<in> set (r # rs) then reads_one A r' c else FM_cell C0 r' c')"
    using cell cell1 by auto
  ultimately show ?case
    using d d1 by auto
qed

lemma col_loop:
  assumes bin: "\<And>r i. 1 \<le> r \<Longrightarrow> r \<le> m \<Longrightarrow> 1 \<le> i \<Longrightarrow> i \<le> k \<Longrightarrow> At A r i = Inr 0 \<or> At A r i = Inr 1"
  shows "set cs \<subseteq> {1..k} \<Longrightarrow> uint (fm_r C0) = m \<Longrightarrow> uint (fm_c C0) = k \<Longrightarrow>
     \<exists>C. forE cs (\<lambda>c C.
          forE (upto1 m) (\<lambda>r C.
            bindE (forE (upto1 k) (\<lambda>i d.
                     bindE (At A r i) (\<lambda>x. bindE (check01 x) (\<lambda>a.
                     bindE (At (MI \<lparr>i_r = k, i_c = k\<rparr>) i c) (\<lambda>y. bindE (check01 y) (\<lambda>b.
                       Inr (d XOR (a AND b))))))) (0 :: 8 word))
              (\<lambda>d. FM_SetAt C r c (to01 (d \<noteq> 0)))) C) C0 = Inr C
        \<and> fm_r C = fm_r C0 \<and> fm_c C = fm_c C0
        \<and> (\<forall>r' c'. 1 \<le> r' \<and> r' \<le> m \<and> 1 \<le> c' \<longrightarrow>
              FM_cell C r' c' = (if c' \<in> set cs then reads_one A r' c' else FM_cell C0 r' c'))"
proof (induction cs arbitrary: C0)
  case Nil
  then show ?case by simp
next
  case (Cons c cs)
  have c: "1 \<le> c" "c \<le> k" and cs: "set cs \<subseteq> {1..k}"
    using Cons.prems by auto
  obtain C1 where C1: "forE (upto1 m) (\<lambda>r C.
            bindE (forE (upto1 k) (\<lambda>i d.
                     bindE (At A r i) (\<lambda>x. bindE (check01 x) (\<lambda>a.
                     bindE (At (MI \<lparr>i_r = k, i_c = k\<rparr>) i c) (\<lambda>y. bindE (check01 y) (\<lambda>b.
                       Inr (d XOR (a AND b))))))) (0 :: 8 word))
              (\<lambda>d. FM_SetAt C r c (to01 (d \<noteq> 0)))) C0 = Inr C1"
    and d1: "fm_r C1 = fm_r C0" "fm_c C1 = fm_c C0"
    and cell1: "\<forall>r' c'. 1 \<le> r' \<and> r' \<le> m \<and> 1 \<le> c' \<longrightarrow>
              FM_cell C1 r' c' = (if c' = c \<and> r' \<in> set (upto1 m) then reads_one A r' c else FM_cell C0 r' c')"
    using row_loop [of m k A c "upto1 m" C0, OF bin c _ Cons.prems(2,3)]
    by (auto simp: set_upto1)
  obtain C where C: "forE cs (\<lambda>c C.
          forE (upto1 m) (\<lambda>r C.
            bindE (forE (upto1 k) (\<lambda>i d.
                     bindE (At A r i) (\<lambda>x. bindE (check01 x) (\<lambda>a.
                     bindE (At (MI \<lparr>i_r = k, i_c = k\<rparr>) i c) (\<lambda>y. bindE (check01 y) (\<lambda>b.
                       Inr (d XOR (a AND b))))))) (0 :: 8 word))
              (\<lambda>d. FM_SetAt C r c (to01 (d \<noteq> 0)))) C) C1 = Inr C"
    and d: "fm_r C = fm_r C1" "fm_c C = fm_c C1"
    and cell: "\<forall>r' c'. 1 \<le> r' \<and> r' \<le> m \<and> 1 \<le> c' \<longrightarrow>
              FM_cell C r' c' = (if c' \<in> set cs then reads_one A r' c' else FM_cell C1 r' c')"
    using Cons.IH [of C1] cs d1 Cons.prems(2,3) by auto
  have "forE (c # cs) (\<lambda>c C.
          forE (upto1 m) (\<lambda>r C.
            bindE (forE (upto1 k) (\<lambda>i d.
                     bindE (At A r i) (\<lambda>x. bindE (check01 x) (\<lambda>a.
                     bindE (At (MI \<lparr>i_r = k, i_c = k\<rparr>) i c) (\<lambda>y. bindE (check01 y) (\<lambda>b.
                       Inr (d XOR (a AND b))))))) (0 :: 8 word))
              (\<lambda>d. FM_SetAt C r c (to01 (d \<noteq> 0)))) C) C0 = Inr C"
    using C1 C by (simp del: At.simps)
  moreover have "\<forall>r' c'. 1 \<le> r' \<and> r' \<le> m \<and> 1 \<le> c' \<longrightarrow>
              FM_cell C r' c' = (if c' \<in> set (c # cs) then reads_one A r' c' else FM_cell C0 r' c')"
    using cell cell1 by (auto simp: set_upto1)
  ultimately show ?case
    using d d1 by auto
qed


lemma fMulFull_Eye:
  assumes size: "Size A = (m, k)" and m: "1 \<le> m" "m \<le> 65535" and k: "1 \<le> k" "k \<le> 65535"
    and bin: "\<And>r i. 1 \<le> r \<Longrightarrow> r \<le> m \<Longrightarrow> 1 \<le> i \<Longrightarrow> i \<le> k \<Longrightarrow> At A r i = Inr 0 \<or> At A r i = Inr 1"
  shows "\<exists>C. fMulFull A (MI \<lparr>i_r = k, i_c = k\<rparr>) = Inr C \<and> FM_Size C = (m, k)
     \<and> (\<forall>r c. 1 \<le> r \<and> r \<le> m \<and> 1 \<le> c \<and> c \<le> k \<longrightarrow> FM_At C r c = At A r c)"
proof -
  let ?C0 = "\<lparr>fm_r = word_of_int m, fm_c = word_of_int k, fm_v = SetBit 0 (m * k) 1\<rparr>"
  have new: "NewFull m k = Inr ?C0"
    using m k by (simp add: NewFull_def)
  have d0: "uint (fm_r ?C0) = m" "uint (fm_c ?C0) = k"
    using m k by (simp_all add: uint16_of_int)
  obtain C where C: "forE (upto1 k) (\<lambda>c C.
          forE (upto1 m) (\<lambda>r C.
            bindE (forE (upto1 k) (\<lambda>i d.
                     bindE (At A r i) (\<lambda>x. bindE (check01 x) (\<lambda>a.
                     bindE (At (MI \<lparr>i_r = k, i_c = k\<rparr>) i c) (\<lambda>y. bindE (check01 y) (\<lambda>b.
                       Inr (d XOR (a AND b))))))) (0 :: 8 word))
              (\<lambda>d. FM_SetAt C r c (to01 (d \<noteq> 0)))) C) ?C0 = Inr C"
    and d: "fm_r C = fm_r ?C0" "fm_c C = fm_c ?C0"
    and cell: "\<forall>r' c'. 1 \<le> r' \<and> r' \<le> m \<and> 1 \<le> c' \<longrightarrow>
              FM_cell C r' c' = (if c' \<in> set (upto1 k) then reads_one A r' c' else FM_cell ?C0 r' c')"
    using col_loop [of m k A "upto1 k" ?C0, OF bin _ d0] by (auto simp: set_upto1)
  have "fMulFull A (MI \<lparr>i_r = k, i_c = k\<rparr>) = Inr C"
    using size new C by (simp add: fMulFull_def bindE_def del: At.simps)
  moreover have dims: "uint (fm_r C) = m" "uint (fm_c C) = k"
    using d d0 by simp_all
  then have "FM_Size C = (m, k)"
    by (simp add: FM_Size_def)
  moreover have "FM_At C r c = At A r c" if "1 \<le> r" "r \<le> m" "1 \<le> c" "c \<le> k" for r c
  proof -
    have "FM_cell C r c = reads_one A r c"
      using cell that by (simp add: set_upto1)
    then have "FM_At C r c = Inr (to01 (reads_one A r c))"
      using that dims
      by (simp add: FM_At_def FM_index_def bindE_def FM_cell_def Bit_def to01_def)
    then show ?thesis
      using bin [OF that] by (auto simp: reads_one_def to01_def oneP_def zeroP_def)
  qed
  ultimately show ?thesis by blast
qed

lemma all_binary_D:
  assumes "all_binary A" "Size A = (m, k)" "1 \<le> r" "r \<le> m" "1 \<le> c" "c \<le> k"
  shows "At A r c = Inr 0 \<or> At A r c = Inr 1"
  using assms by (simp add: all_binary_def list_all_iff set_upto1)

section \<open>Multiplication by an identity\<close>

text \<open>
  C7, as the code has it.  Let \<open>A\<close> be an m x k matrix of kind \<open>SM\<close>, \<open>FM\<close>, \<open>PFM\<close>,
  \<open>I\<close>, \<open>Z\<close>, \<open>R\<close> or \<open>S\<close>, every in-bounds element of which reads 0 or 1, of size at most
  65535 when it is an \<open>R\<close> or an \<open>S\<close>.  Then \<open>FMul(A, Eye(k, k))\<close> succeeds, and the result
  is an m x k matrix that reads the same as \<open>A\<close> at every in-bounds position.
\<close>

theorem FMul_identity_right:
  assumes "Size A = (m, k)" and "1 \<le> m" and "1 \<le> k"
    and "\<not> is_PSM A" and "wf_M A" and "all_binary A" and "fits_full A"
  shows "\<exists>C. FMul A (MI \<lparr>i_r = k, i_c = k\<rparr>) = Inr C \<and> Size C = (m, k)
     \<and> (\<forall>r c. in_bounds A r c \<longrightarrow> At C r c = At A r c)"
proof -
  have bin: "At A r i = Inr 0 \<or> At A r i = Inr 1" if "1 \<le> r" "r \<le> m" "1 \<le> i" "i \<le> k" for r i
    using all_binary_D [OF assms(6) assms(1) that] .
  have full: "\<exists>C. FMul A (MI \<lparr>i_r = k, i_c = k\<rparr>) = Inr C \<and> Size C = (m, k)
     \<and> (\<forall>r c. in_bounds A r c \<longrightarrow> At C r c = At A r c)"
    if call: "FMul A (MI \<lparr>i_r = k, i_c = k\<rparr>)
        = bindE (fMulFull A (MI \<lparr>i_r = k, i_c = k\<rparr>)) (\<lambda>C. Inr (MFM C))"
      and le: "m \<le> 65535" "k \<le> 65535"
  proof -
    obtain C where "fMulFull A (MI \<lparr>i_r = k, i_c = k\<rparr>) = Inr C" "FM_Size C = (m, k)"
      "\<forall>r c. 1 \<le> r \<and> r \<le> m \<and> 1 \<le> c \<and> c \<le> k \<longrightarrow> FM_At C r c = At A r c"
      using fMulFull_Eye [OF assms(1) assms(2) le(1) assms(3) le(2) bin] by blast
    then show ?thesis
      using call assms(1) by (intro exI [of _ "MFM C"]) (simp add: bindE_def in_bounds_def)
  qed
  show ?thesis
  proof (cases A)
    case (MSM x)
    then have "1 \<le> uint (sm_r x)" "1 \<le> uint (sm_c x)" "k = uint (sm_c x)" "m = uint (sm_r x)"
      and "distinct (map fst (sm_v x))"
      using assms by (simp_all add: SM_Size_def)
    then show ?thesis
      using FMul_SM_Eye [of x] MSM by (auto simp: SM_Size_def)
  next
    case (MFM x)
    then have "FMul A (MI \<lparr>i_r = k, i_c = k\<rparr>) = Inr A"
      using assms(1) uint16_bound [of "fm_r x"] uint16_bound [of "fm_c x"]
      by (auto simp: FMul_def FMul_B_def Full_def FM_Size_def bindE_def)
    then show ?thesis
      using assms(1) by simp
  next
    case (MPSM x)
    then show ?thesis using assms(4) by simp
  next
    case (MPFM x)
    then have "FMul A (MI \<lparr>i_r = k, i_c = k\<rparr>)
        = bindE (fMulFull A (MI \<lparr>i_r = k, i_c = k\<rparr>)) (\<lambda>C. Inr (MFM C))"
      using assms(1) by (simp add: FMul_def FMul_B_def PFM_Size_def)
    moreover have "m \<le> 65535" "k \<le> 65535"
      using MPFM assms(1) uint16_bound [of "pfm_r x"] uint16_bound [of "pfm_c x"]
      by (auto simp: PFM_Size_def)
    ultimately show ?thesis by (rule full)
  next
    case (MI x)
    then have "FMul A (MI \<lparr>i_r = k, i_c = k\<rparr>) = Inr A"
      using assms(1,2,3) by (auto simp: FMul_def Eye_def bindE_def)
    then show ?thesis
      using assms(1) by simp
  next
    case (MZ x)
    then have "FMul A (MI \<lparr>i_r = k, i_c = k\<rparr>) = Inr A"
      using assms(1,2,3) by (auto simp: FMul_def Zeros_def bindE_def)
    then show ?thesis
      using assms(1) by simp
  next
    case (MR x)
    then have "FMul A (MI \<lparr>i_r = k, i_c = k\<rparr>)
        = bindE (fMulFull A (MI \<lparr>i_r = k, i_c = k\<rparr>)) (\<lambda>C. Inr (MFM C))"
      using assms(1) by (simp add: FMul_def FMul_B_def)
    moreover have "m \<le> 65535" "k \<le> 65535"
      using MR assms(1,7) by auto
    ultimately show ?thesis by (rule full)
  next
    case (MS x)
    then have "FMul A (MI \<lparr>i_r = k, i_c = k\<rparr>)
        = bindE (fMulFull A (MI \<lparr>i_r = k, i_c = k\<rparr>)) (\<lambda>C. Inr (MFM C))"
      using assms(1) by (simp add: FMul_def FMul_B_def)
    moreover have "m \<le> 65535" "k \<le> 65535"
      using MS assms(1,7) by auto
    ultimately show ?thesis by (rule full)
  qed
qed

text \<open>
  The product with an identity fails for a full polynomial matrix holding the
  polynomial \<open>x\<close>, and for a rotation of size 65536.
\<close>

theorem FMul_identity_rejects:
  "FMul (MPFM \<lparr>pfm_r = 1, pfm_c = 1, pfm_v = [2]\<rparr>) (MI \<lparr>i_r = 1, i_c = 1\<rparr>) = Inl NotBinary
   \<and> FMul (MR \<lparr>r_s = 65536, r_n = 0\<rparr>) (MI \<lparr>i_r = 65536, i_c = 65536\<rparr>) = Inl SizeTooLarge"
proof -
  have "FMul (MPFM \<lparr>pfm_r = 1, pfm_c = 1, pfm_v = [2]\<rparr>) (MI \<lparr>i_r = 1, i_c = 1\<rparr>) = Inl NotBinary"
    by code_simp
  moreover have "FMul (MR \<lparr>r_s = 65536, r_n = 0\<rparr>) (MI \<lparr>i_r = 65536, i_c = 65536\<rparr>) = Inl SizeTooLarge"
    by (simp add: FMul_def FMul_B_def fMulFull_def NewFull_def bindE_def)
  ultimately show ?thesis by simp
qed

theorem FMul_identity_right_witness:
  "Size (MR \<lparr>r_s = 2, r_n = 1\<rparr>) = (2, 2)
   \<and> wf_M (MR \<lparr>r_s = 2, r_n = 1\<rparr>) \<and> all_binary (MR \<lparr>r_s = 2, r_n = 1\<rparr>)
   \<and> fits_full (MR \<lparr>r_s = 2, r_n = 1\<rparr>)
   \<and> in_bounds (MR \<lparr>r_s = 2, r_n = 1\<rparr>) 1 2
   \<and> (\<exists>C. FMul (MR \<lparr>r_s = 2, r_n = 1\<rparr>) (MI \<lparr>i_r = 2, i_c = 2\<rparr>) = Inr C \<and> Size C = (2, 2)
        \<and> At C 1 2 = Inr 1 \<and> At C 1 1 = Inr 0)"
proof -
  let ?A = "MR \<lparr>r_s = 2, r_n = 1\<rparr>"
  have s: "Size ?A = (2, 2)" by simp
  have p: "\<not> is_PSM ?A" by simp
  have w: "wf_M ?A" by simp
  have b: "all_binary ?A" by code_simp
  have f: "fits_full ?A" by simp
  have i: "in_bounds ?A 1 2" "in_bounds ?A 1 1" by (simp_all add: in_bounds_def)
  have a: "At ?A 1 2 = Inr 1" "At ?A 1 1 = Inr 0"
    by (simp_all add: R_At_def to01_def oneP_def zeroP_def signed_modulo_int_def)
  obtain C where "FMul ?A (MI \<lparr>i_r = 2, i_c = 2\<rparr>) = Inr C" "Size C = (2, 2)"
    "\<forall>r c. in_bounds ?A r c \<longrightarrow> At C r c = At ?A r c"
    using FMul_identity_right [OF s _ _ p w b f] by auto
  then have "FMul ?A (MI \<lparr>i_r = 2, i_c = 2\<rparr>) = Inr C \<and> Size C = (2, 2)
        \<and> At C 1 2 = Inr 1 \<and> At C 1 1 = Inr 0"
    using i a by metis
  then show ?thesis
    using s w b f i by blast
qed

section \<open>Reading a new zero matrix\<close>

lemma cell_index_bound:
  assumes "1 \<le> r" "r \<le> m" "1 \<le> c" "c \<le> (n :: int)"
  shows "0 \<le> (c - 1) * m + (r - 1) \<and> (c - 1) * m + (r - 1) < m * n"
proof -
  have "(c - 1) * m + (r - 1) < (c - 1) * m + m"
    using assms by simp
  also have "\<dots> = c * m"
    by (simp add: algebra_simps)
  also have "\<dots> \<le> n * m"
    using assms by (intro mult_right_mono) auto
  finally show ?thesis
    using assms by (simp add: mult.commute)
qed

lemma NewSparse_At_zero:
  assumes "1 \<le> m" "m \<le> 65535" "1 \<le> n" "n \<le> 65535" "1 \<le> r" "r \<le> m" "1 \<le> c" "c \<le> n"
  shows "bindE (NewSparse m n) (\<lambda>A. SM_At A r c) = Inr zeroP"
  using assms
  by (simp add: NewSparse_def bindE_def SM_At_def SM_index_def lookup0_def uint16_of_int)

lemma NewFull_At_zero:
  assumes "1 \<le> m" "m \<le> 65535" "1 \<le> n" "n \<le> 65535" "1 \<le> r" "r \<le> m" "1 \<le> c" "c \<le> n"
  shows "bindE (NewFull m n) (\<lambda>A. FM_At A r c) = Inr zeroP"
proof -
  have i: "0 \<le> (c - 1) * m + (r - 1)" "(c - 1) * m + (r - 1) < m * n"
    using cell_index_bound [of r m c n] assms by simp_all
  then have "nat ((c - 1) * m + (r - 1)) \<noteq> nat (m * n)"
    by linarith
  then have "\<not> bit (SetBit 0 (m * n) 1) (nat ((c - 1) * m + (r - 1)))"
    by (simp add: SetBit_def bit_simps)
  then show ?thesis
    using assms
    by (simp add: NewFull_def bindE_def FM_At_def FM_index_def Bit_def uint16_of_int)
qed

lemma NewPFull_At_zero:
  assumes "1 \<le> m" "m \<le> 65535" "1 \<le> n" "n \<le> 65535" "1 \<le> r" "r \<le> m" "1 \<le> c" "c \<le> n"
  shows "bindE (NewPFull m n) (\<lambda>A. PFM_At A r c) = Inr 0"
proof -
  have i: "0 \<le> (c - 1) * m + (r - 1)" "(c - 1) * m + (r - 1) < m * n"
    using cell_index_bound [of r m c n] assms by simp_all
  then have "nat ((c - 1) * m + (r - 1)) < nat (m * n)"
    by linarith
  then show ?thesis
    using assms i
    by (simp add: NewPFull_def bindE_def PFM_At_def PFM_index_def slice_get_def uint16_of_int)
qed

lemma NewPSparse_At_always_panics:
  assumes "1 \<le> m" "m \<le> 65535" "1 \<le> n" "n \<le> 65535" "1 \<le> r" "r \<le> m" "1 \<le> c" "c \<le> n"
  shows "bindE (NewPSparse m n) (\<lambda>A. PSM_At A r c) = Inl NilDeref"
  using assms
  by (simp add: NewPSparse_def bindE_def PSM_At_def PSM_index_def uint16_of_int)

text \<open>
  C2. The zero matrices made by \<open>NewSparse\<close>, \<open>NewFull\<close> and \<open>NewPFull\<close> read zero at
  every in-bounds position, as the lemmas above show.  Reading the one made by
  \<open>NewPSparse\<close> panics, at every in-bounds position: the map is empty, so the lookup
  gives nil and \<open>At\<close> dereferences it.
\<close>

theorem NewPSparse_At_panics:
  "bindE (NewPSparse 1 1) (\<lambda>A. PSM_At A 1 1) = Inl NilDeref"
  by (simp add: NewPSparse_def PSM_At_def PSM_index_def bindE_def coord_def)

section \<open>Conversion of a full polynomial matrix to a binary kind\<close>

lemma key_eq_coord:
  assumes "0 \<le> r" "r < 65536" "0 \<le> c" "c < 65536"
  shows "(word_of_int (push_bit 16 c) OR word_of_int r :: 32 word) = coord r c"
  unfolding coord_def
  apply (rule bit_word_eqI)
  using assms
  by (auto simp: bit_simps dest: bit_lt16)

lemma map_loop:
  assumes "\<And>x acc. x \<in> set xs \<Longrightarrow>
     \<exists>acc'. body x acc = Inr acc' \<and> (\<forall>k. map_of acc' k = (if k \<in> S x then Some v else map_of acc k))"
  shows "\<exists>acc'. forE xs body acc = Inr acc'
     \<and> (\<forall>k. map_of acc' k = (if k \<in> (\<Union>x\<in>set xs. S x) then Some v else map_of acc k))"
  using assms
proof (induction xs arbitrary: acc)
  case Nil
  then show ?case by simp
next
  case (Cons x xs)
  obtain acc1 where a1: "body x acc = Inr acc1"
    and m1: "\<forall>k. map_of acc1 k = (if k \<in> S x then Some v else map_of acc k)"
    using Cons.prems [of x acc] by auto
  obtain acc' where a': "forE xs body acc1 = Inr acc'"
    and m': "\<forall>k. map_of acc' k = (if k \<in> (\<Union>x\<in>set xs. S x) then Some v else map_of acc1 k)"
    using Cons.IH [of acc1] Cons.prems by auto
  have "forE (x # xs) body acc = Inr acc'"
    using a1 a' by simp
  moreover have "\<forall>k. map_of acc' k = (if k \<in> (\<Union>x\<in>set (x # xs). S x) then Some v else map_of acc k)"
    using m1 m' by auto
  ultimately show ?case by blast
qed

lemma bit_loop:
  assumes "\<And>x acc. x \<in> set xs \<Longrightarrow>
     \<exists>acc'. body x acc = Inr acc' \<and> (\<forall>n. bit (acc' :: int) n = (n \<in> S x \<or> bit acc n))"
  shows "\<exists>acc'. forE xs body acc = Inr acc'
     \<and> (\<forall>n. bit acc' n = (n \<in> (\<Union>x\<in>set xs. S x) \<or> bit acc n))"
  using assms
proof (induction xs arbitrary: acc)
  case Nil
  then show ?case by simp
next
  case (Cons x xs)
  obtain acc1 where a1: "body x acc = Inr acc1"
    and m1: "\<forall>n. bit acc1 n = (n \<in> S x \<or> bit acc n)"
    using Cons.prems [of x acc] by auto
  obtain acc' where a': "forE xs body acc1 = Inr acc'"
    and m': "\<forall>n. bit acc' n = (n \<in> (\<Union>x\<in>set xs. S x) \<or> bit acc1 n)"
    using Cons.IH [of acc1] Cons.prems by auto
  have "forE (x # xs) body acc = Inr acc'"
    using a1 a' by simp
  moreover have "\<forall>n. bit acc' n = (n \<in> (\<Union>x\<in>set (x # xs). S x) \<or> bit acc n)"
    using m1 m' by auto
  ultimately show ?case by blast
qed

lemma PFM_cell_mem:
  assumes "wf_PFM A" "0 \<le> r" "r < uint (pfm_r A)" "0 \<le> c" "c < uint (pfm_c A)"
  shows "pfm_v A ! nat (c * uint (pfm_r A) + r) \<in> set (pfm_v A)"
proof -
  have "c * uint (pfm_r A) + r < (c + 1) * uint (pfm_r A)"
    using assms by (simp add: algebra_simps)
  also have "\<dots> \<le> uint (pfm_c A) * uint (pfm_r A)"
    using assms by (intro mult_right_mono) auto
  finally have "nat (c * uint (pfm_r A) + r) < length (pfm_v A)"
    using assms by (simp add: wf_PFM_def mult.commute nat_less_iff)
  then show ?thesis
    by (rule nth_mem)
qed

lemma Sparse_PFM_value:
  assumes wf: "wf_PFM A" and bin: "\<not> (\<exists>q\<in>set (pfm_v A). not01 q)"
  shows "\<exists>B. Sparse (MPFM A) = Inr B \<and> SM_Size B = PFM_Size A
     \<and> (\<forall>r c p. At (MPFM A) r c = Inr p \<longrightarrow> SM_At B r c = Inr (to01 (odd p)))"
proof -
  let ?rows = "uint (pfm_r A)" and ?cols = "uint (pfm_c A)"
  define e where "e r c = pfm_v A ! nat (c * ?rows + r)" for r c
  define K where "K r c = (word_of_int (push_bit 16 c) OR word_of_int r :: 32 word)" for r c :: int
  let ?cell = "\<lambda>r c acc. bindE (At (MPFM A) (r + 1) (c + 1)) (\<lambda>p. bindE (check01 p) (\<lambda>b.
                 if b \<noteq> 0 then Inr (put (word_of_int (push_bit 16 c) OR word_of_int r :: 32 word) (1 :: 8 word) acc)
                 else Inr acc))"
  let ?inner = "\<lambda>r acc. forE (below ?cols) (\<lambda>c acc. ?cell r c acc) acc"
  have bounds: "?rows \<le> 65535" "?cols \<le> 65535"
    by (rule uint16_bound)+
  have cell: "?cell r c acc = Inr (if odd (e r c) then put (K r c) 1 acc else acc)"
    if "r \<in> set (below ?rows)" "c \<in> set (below ?cols)" for r c acc
  proof -
    have rc: "0 \<le> r" "r < ?rows" "0 \<le> c" "c < ?cols"
      using that by (auto simp: set_below)
    have at: "At (MPFM A) (r + 1) (c + 1) = Inr (e r c)"
      unfolding e_def using wf rc by (intro PFM_cell) auto
    have "\<not> not01 (e r c)"
      unfolding e_def using PFM_cell_mem [OF wf rc] bin by blast
    then have "check01 (e r c) = Inr (of_bool (odd (e r c)))"
      using check01_ok [of "e r c"] by (simp add: not01_def)
    then show ?thesis
      using at by (simp add: bindE_def K_def del: At.simps)
  qed
  have inner: "\<exists>acc'. ?inner r acc = Inr acc' \<and> (\<forall>k. map_of acc' k =
      (if k \<in> (\<Union>c\<in>set (below ?cols). (if odd (e r c) then {K r c} else {})) then Some 1 else map_of acc k))"
    if r: "r \<in> set (below ?rows)" for r acc
  proof (rule map_loop)
    fix c acc assume "c \<in> set (below ?cols)"
    then show "\<exists>acc'. ?cell r c acc = Inr acc' \<and> (\<forall>k. map_of acc' k =
        (if k \<in> (if odd (e r c) then {K r c} else {}) then Some 1 else map_of acc k))"
      using cell [OF r] by (simp add: map_of_put del: At.simps)
  qed
  define S where "S = (\<Union>r\<in>set (below ?rows). \<Union>c\<in>set (below ?cols). (if odd (e r c) then {K r c} else {}))"
  obtain v where v: "forE (below ?rows) ?inner [] = Inr v"
    and mv: "\<forall>k. map_of v k = (if k \<in> S then Some 1 else map_of [] k)"
    unfolding S_def using map_loop [of "below ?rows" ?inner _ 1 "[]", OF inner] by blast
  let ?B = "\<lparr>sm_r = pfm_r A, sm_c = pfm_c A, sm_v = v\<rparr>"
  have sp: "Sparse (MPFM A) = Inr ?B"
    using v by (simp add: Sparse_def PFM_Size_def uint16_le Let_def bindE_def del: At.simps)
  have val: "SM_At ?B r c = Inr (to01 (odd p))" if at: "At (MPFM A) r c = Inr p" for r c p
  proof -
    have rc: "0 \<le> r - 1" "r - 1 < ?rows" "0 \<le> c - 1" "c - 1 < ?cols"
      using at by (auto simp: PFM_At_def PFM_index_def bindE_def split: if_splits)
    have "At (MPFM A) ((r - 1) + 1) ((c - 1) + 1) = Inr (e (r - 1) (c - 1))"
      unfolding e_def using wf rc by (intro PFM_cell) auto
    then have p: "p = e (r - 1) (c - 1)"
      using at by simp
    have idx: "SM_index ?B r c = Inr (coord (r - 1) (c - 1))"
      using rc by (simp add: SM_index_def)
    have "coord (r - 1) (c - 1) \<in> S \<longleftrightarrow> odd (e (r - 1) (c - 1))"
    proof
      assume "coord (r - 1) (c - 1) \<in> S"
      then obtain r' c' where rc': "0 \<le> r'" "r' < ?rows" "0 \<le> c'" "c' < ?cols"
        and odd: "odd (e r' c')" and k: "K r' c' = coord (r - 1) (c - 1)"
        by (auto simp: S_def set_below split: if_splits)
      have "K r' c' = coord r' c'"
        unfolding K_def using rc' bounds by (intro key_eq_coord) auto
      then have "r' = r - 1 \<and> c' = c - 1"
        using k rc rc' bounds by (intro coord_inj) auto
      then show "odd (e (r - 1) (c - 1))"
        using odd by simp
    next
      assume o: "odd (e (r - 1) (c - 1))"
      have "K (r - 1) (c - 1) = coord (r - 1) (c - 1)"
        unfolding K_def using rc bounds by (intro key_eq_coord) auto
      moreover have "r - 1 \<in> set (below ?rows)" "c - 1 \<in> set (below ?cols)"
        using rc by (auto simp: set_below)
      ultimately show "coord (r - 1) (c - 1) \<in> S"
        unfolding S_def using o by (intro UN_I [of "r - 1"] UN_I [of "c - 1"]) auto
    qed
    then have "lookup0 v (coord (r - 1) (c - 1)) \<noteq> 0 \<longleftrightarrow> odd p"
      using mv p by (simp add: lookup0_def)
    then show ?thesis
      using idx by (simp add: SM_At_def bindE_def to01_def)
  qed
  show ?thesis
    using sp val by (intro exI [of _ ?B]) (simp add: SM_Size_def PFM_Size_def del: At.simps)
qed


lemma bit_SetBit_one: "0 \<le> i \<Longrightarrow> bit (SetBit v i (Suc 0)) n = (n = nat i \<or> bit v n)"
  using bit_SetBit [of i v True n] by simp

lemma Full_PFM_value:
  assumes wf: "wf_PFM A" and bin: "\<not> (\<exists>q\<in>set (pfm_v A). not01 q)"
  shows "\<exists>B. Full (MPFM A) = Inr B \<and> FM_Size B = PFM_Size A
     \<and> (\<forall>r c p. At (MPFM A) r c = Inr p \<longrightarrow> FM_At B r c = Inr (to01 (odd p)))"
proof -
  let ?rows = "uint (pfm_r A)" and ?cols = "uint (pfm_c A)"
  define e where "e r c = pfm_v A ! nat (c * ?rows + r)" for r c
  let ?cell = "\<lambda>r c acc. bindE (At (MPFM A) (r + 1) (c + 1)) (\<lambda>p. bindE (check01 p) (\<lambda>b.
                 if b \<noteq> 0 then Inr (SetBit acc (c * ?rows + r) 1)
                 else Inr acc))"
  let ?inner = "\<lambda>r acc. forE (below ?cols) (\<lambda>c acc. ?cell r c acc) acc"
  have cell: "?cell r c acc = Inr (if odd (e r c) then SetBit acc (c * ?rows + r) 1 else acc)"
    if "r \<in> set (below ?rows)" "c \<in> set (below ?cols)" for r c acc
  proof -
    have rc: "0 \<le> r" "r < ?rows" "0 \<le> c" "c < ?cols"
      using that by (auto simp: set_below)
    have at: "At (MPFM A) (r + 1) (c + 1) = Inr (e r c)"
      unfolding e_def using wf rc by (intro PFM_cell) auto
    have "\<not> not01 (e r c)"
      unfolding e_def using PFM_cell_mem [OF wf rc] bin by blast
    then have "check01 (e r c) = Inr (of_bool (odd (e r c)))"
      using check01_ok [of "e r c"] by (simp add: not01_def)
    then show ?thesis
      using at by (simp add: bindE_def del: At.simps)
  qed
  have inner: "\<exists>acc'. ?inner r acc = Inr acc' \<and> (\<forall>n. bit acc' n =
      (n \<in> (\<Union>c\<in>set (below ?cols). (if odd (e r c) then {nat (c * ?rows + r)} else {})) \<or> bit acc n))"
    if r: "r \<in> set (below ?rows)" for r acc
  proof (rule bit_loop)
    fix c acc assume c: "c \<in> set (below ?cols)"
    have "0 \<le> c * ?rows + r"
      using r c by (auto simp: set_below)
    then show "\<exists>acc'. ?cell r c acc = Inr acc' \<and> (\<forall>n. bit acc' n =
        (n \<in> (if odd (e r c) then {nat (c * ?rows + r)} else {}) \<or> bit acc n))"
      using cell [OF r c] by (simp add: bit_SetBit_one del: At.simps)
  qed
  define S where "S = (\<Union>r\<in>set (below ?rows). \<Union>c\<in>set (below ?cols).
      (if odd (e r c) then {nat (c * ?rows + r)} else {}))"
  obtain v where v: "forE (below ?rows) ?inner (SetBit 0 (?rows * ?cols) 1) = Inr v"
    and mv: "\<forall>n. bit v n = (n \<in> S \<or> bit (SetBit 0 (?rows * ?cols) 1) n)"
    unfolding S_def
    using bit_loop [of "below ?rows" ?inner _ "SetBit 0 (?rows * ?cols) 1", OF inner] by blast
  let ?B = "\<lparr>fm_r = pfm_r A, fm_c = pfm_c A, fm_v = v\<rparr>"
  have sp: "Full (MPFM A) = Inr ?B"
    using v by (simp add: Full_def PFM_Size_def uint16_le Let_def bindE_def del: At.simps)
  have val: "FM_At ?B r c = Inr (to01 (odd p))" if at: "At (MPFM A) r c = Inr p" for r c p
  proof -
    have rc: "0 \<le> r - 1" "r - 1 < ?rows" "0 \<le> c - 1" "c - 1 < ?cols"
      using at by (auto simp: PFM_At_def PFM_index_def bindE_def split: if_splits)
    have "At (MPFM A) ((r - 1) + 1) ((c - 1) + 1) = Inr (e (r - 1) (c - 1))"
      unfolding e_def using wf rc by (intro PFM_cell) auto
    then have p: "p = e (r - 1) (c - 1)"
      using at by simp
    let ?k = "(c - 1) * ?rows + (r - 1)"
    have idx: "FM_index ?B r c = Inr ?k"
      using rc by (simp add: FM_index_def)
    have kb: "0 \<le> ?k \<and> ?k < ?rows * ?cols"
      using rc by (intro cell_index_bound) auto
    have "nat ?k \<noteq> nat (?rows * ?cols)"
      using kb by linarith
    moreover have "0 \<le> ?rows * ?cols"
      by simp
    ultimately have guard: "bit (SetBit 0 (?rows * ?cols) 1) (nat ?k) = False"
      by (simp add: bit_SetBit_one)
    have "nat ?k \<in> S \<longleftrightarrow> odd (e (r - 1) (c - 1))"
    proof
      assume "nat ?k \<in> S"
      then obtain r' c' where rc': "0 \<le> r'" "r' < ?rows" "0 \<le> c'" "c' < ?cols"
        and odd: "odd (e r' c')" and k: "nat (c' * ?rows + r') = nat ?k"
        by (auto simp: S_def set_below split: if_splits)
      have "0 \<le> c' * ?rows + r'"
        using rc' by simp
      then have "c' * ?rows + r' = ?k"
        using k kb by (metis nat_eq_iff)
      then have "r' = r - 1 \<and> c' = c - 1"
        using idx_inj [of ?rows r' "r - 1" c' "c - 1"] rc rc' by simp
      then show "odd (e (r - 1) (c - 1))"
        using odd by simp
    next
      assume o: "odd (e (r - 1) (c - 1))"
      have "r - 1 \<in> set (below ?rows)" "c - 1 \<in> set (below ?cols)"
        using rc by (auto simp: set_below)
      then show "nat ?k \<in> S"
        unfolding S_def using o by (intro UN_I [of "r - 1"] UN_I [of "c - 1"]) auto
    qed
    then have "bit v (nat ?k) \<longleftrightarrow> odd p"
      using mv p guard by simp
    then show ?thesis
      using idx by (simp add: FM_At_def bindE_def to01_def Bit_def)
  qed
  show ?thesis
    using sp val by (intro exI [of _ ?B]) (simp add: FM_Size_def PFM_Size_def del: At.simps)
qed

section \<open>Polynomials in a binary context\<close>

text \<open>
  C6, as the code has it.  \<open>check01\<close>, and with it \<open>SetAt\<close>, \<open>AddAt\<close> and \<open>MulAt\<close> at an
  in-bounds index of a sparse or full binary matrix, fails exactly when the polynomial
  is negative or has degree at least one (bit length at least two); otherwise the low
  bit of the polynomial is the value stored, added or multiplied in.  \<open>Sparse\<close> and
  \<open>Full\<close> of a full polynomial matrix fail exactly when some element is negative or has
  degree at least one; otherwise they return a binary matrix of the same size whose
  element at every position is the low bit of the polynomial at that position.
\<close>

theorem binary_element_check:
  assumes "SM_index sm r c = Inr k" and "FM_index fm r' c' = Inr i" and "wf_PFM A"
  shows "(failsE (check01 p) \<longleftrightarrow> not01 p)
     \<and> (failsE (SM_SetAt sm r c p) \<longleftrightarrow> not01 p)
     \<and> (failsE (SM_AddAt sm r c p) \<longleftrightarrow> not01 p)
     \<and> (failsE (SM_MulAt sm r c p) \<longleftrightarrow> not01 p)
     \<and> (failsE (FM_SetAt fm r' c' p) \<longleftrightarrow> not01 p)
     \<and> (failsE (FM_AddAt fm r' c' p) \<longleftrightarrow> not01 p)
     \<and> (failsE (FM_MulAt fm r' c' p) \<longleftrightarrow> not01 p)
     \<and> (failsE (Sparse (MPFM A)) \<longleftrightarrow> (\<exists>q\<in>set (pfm_v A). not01 q))
     \<and> (failsE (Full (MPFM A)) \<longleftrightarrow> (\<exists>q\<in>set (pfm_v A). not01 q))
     \<and> (\<not> not01 p \<longrightarrow>
          check01 p = Inr (of_bool (odd p))
        \<and> SM_SetAt sm r c p = Inr (sm\<lparr>sm_v := AList.update k (of_bool (odd p)) (sm_v sm)\<rparr>)
        \<and> SM_AddAt sm r c p =
            Inr (to01 (lookup0 (sm_v sm) k XOR of_bool (odd p) \<noteq> 0),
                 sm\<lparr>sm_v := AList.update k (lookup0 (sm_v sm) k XOR of_bool (odd p)) (sm_v sm)\<rparr>)
        \<and> SM_MulAt sm r c p =
            Inr (to01 (lookup0 (sm_v sm) k AND of_bool (odd p) \<noteq> 0),
                 sm\<lparr>sm_v := AList.update k (lookup0 (sm_v sm) k AND of_bool (odd p)) (sm_v sm)\<rparr>)
        \<and> FM_SetAt fm r' c' p = Inr (fm\<lparr>fm_v := SetBit (fm_v fm) i (of_bool (odd p))\<rparr>)
        \<and> FM_AddAt fm r' c' p =
            Inr (to01 (Bit (fm_v fm) i XOR of_bool (odd p) \<noteq> 0),
                 fm\<lparr>fm_v := SetBit (fm_v fm) i (Bit (fm_v fm) i XOR of_bool (odd p))\<rparr>)
        \<and> FM_MulAt fm r' c' p =
            Inr (to01 (Bit (fm_v fm) i AND of_bool (odd p) \<noteq> 0),
                 fm\<lparr>fm_v := SetBit (fm_v fm) i (Bit (fm_v fm) i AND of_bool (odd p))\<rparr>))
     \<and> (\<not> (\<exists>q\<in>set (pfm_v A). not01 q) \<longrightarrow>
          (\<exists>B. Sparse (MPFM A) = Inr B \<and> SM_Size B = PFM_Size A
             \<and> (\<forall>r c q. At (MPFM A) r c = Inr q \<longrightarrow> SM_At B r c = Inr (to01 (odd q))))
        \<and> (\<exists>B. Full (MPFM A) = Inr B \<and> FM_Size B = PFM_Size A
             \<and> (\<forall>r c q. At (MPFM A) r c = Inr q \<longrightarrow> FM_At B r c = Inr (to01 (odd q)))))"
proof -
  have c: "failsE (check01 p) \<longleftrightarrow> not01 p"
    by (simp add: check01_fails_iff not01_def)
  have ok: "check01 p = Inr (of_bool (odd p))" if "\<not> not01 p"
    using that check01_ok [of p] by (simp add: not01_def)
  have bad: "check01 p = Inl NotBinary" if "not01 p"
    using that check01_cases [of p] by (auto simp: not01_def)
  have sm: "failsE (SM_SetAt sm r c p) \<longleftrightarrow> not01 p" "failsE (SM_AddAt sm r c p) \<longleftrightarrow> not01 p"
    "failsE (SM_MulAt sm r c p) \<longleftrightarrow> not01 p"
    using assms(1) ok bad
    by (cases "not01 p"; simp add: SM_SetAt_def SM_AddAt_def SM_MulAt_def bindE_def failsE_def Let_def)+
  have fm: "failsE (FM_SetAt fm r' c' p) \<longleftrightarrow> not01 p" "failsE (FM_AddAt fm r' c' p) \<longleftrightarrow> not01 p"
    "failsE (FM_MulAt fm r' c' p) \<longleftrightarrow> not01 p"
    using assms(2) ok bad
    by (cases "not01 p"; simp add: FM_SetAt_def FM_AddAt_def FM_MulAt_def bindE_def failsE_def Let_def)+
  have vals: "SM_SetAt sm r c p = Inr (sm\<lparr>sm_v := AList.update k (of_bool (odd p)) (sm_v sm)\<rparr>)
        \<and> SM_AddAt sm r c p =
            Inr (to01 (lookup0 (sm_v sm) k XOR of_bool (odd p) \<noteq> 0),
                 sm\<lparr>sm_v := AList.update k (lookup0 (sm_v sm) k XOR of_bool (odd p)) (sm_v sm)\<rparr>)
        \<and> SM_MulAt sm r c p =
            Inr (to01 (lookup0 (sm_v sm) k AND of_bool (odd p) \<noteq> 0),
                 sm\<lparr>sm_v := AList.update k (lookup0 (sm_v sm) k AND of_bool (odd p)) (sm_v sm)\<rparr>)
        \<and> FM_SetAt fm r' c' p = Inr (fm\<lparr>fm_v := SetBit (fm_v fm) i (of_bool (odd p))\<rparr>)
        \<and> FM_AddAt fm r' c' p =
            Inr (to01 (Bit (fm_v fm) i XOR of_bool (odd p) \<noteq> 0),
                 fm\<lparr>fm_v := SetBit (fm_v fm) i (Bit (fm_v fm) i XOR of_bool (odd p))\<rparr>)
        \<and> FM_MulAt fm r' c' p =
            Inr (to01 (Bit (fm_v fm) i AND of_bool (odd p) \<noteq> 0),
                 fm\<lparr>fm_v := SetBit (fm_v fm) i (Bit (fm_v fm) i AND of_bool (odd p))\<rparr>)"
    if "\<not> not01 p"
    using assms(1,2) ok [OF that]
    by (simp add: SM_SetAt_def SM_AddAt_def SM_MulAt_def FM_SetAt_def FM_AddAt_def FM_MulAt_def
        bindE_def Let_def)
  have conv: "(\<exists>B. Sparse (MPFM A) = Inr B \<and> SM_Size B = PFM_Size A
             \<and> (\<forall>r c q. At (MPFM A) r c = Inr q \<longrightarrow> SM_At B r c = Inr (to01 (odd q))))
        \<and> (\<exists>B. Full (MPFM A) = Inr B \<and> FM_Size B = PFM_Size A
             \<and> (\<forall>r c q. At (MPFM A) r c = Inr q \<longrightarrow> FM_At B r c = Inr (to01 (odd q))))"
    if "\<not> (\<exists>q\<in>set (pfm_v A). not01 q)"
    using Sparse_PFM_value [OF assms(3) that] Full_PFM_value [OF assms(3) that]
    by (rule conjI)
  show ?thesis
    using c sm fm Sparse_PFM_fails_iff [OF assms(3)] Full_PFM_fails_iff [OF assms(3)] ok vals conv
    by blast
qed

text \<open>
  The polynomial \<open>x\<close> (the bit pattern 2) has degree one and is not negative, and
  \<open>check01\<close> rejects it: failure is not confined to degree two and above.
\<close>

theorem check01_degree_one_rejected:
  "check01 2 = Inl NotBinary \<and> \<not> (2 :: int) < 0 \<and> \<not> 2 \<le> poly_degree 2"
  by (simp add: check01_def poly_degree_def BitLen_def BitLen_nat.simps)

theorem binary_element_check_witness:
  "SM_index \<lparr>sm_r = 1, sm_c = 1, sm_v = []\<rparr> 1 1 = Inr 0
   \<and> FM_index \<lparr>fm_r = 1, fm_c = 1, fm_v = 2\<rparr> 1 1 = Inr 0
   \<and> wf_PFM \<lparr>pfm_r = 1, pfm_c = 1, pfm_v = [1]\<rparr>
   \<and> \<not> not01 1
   \<and> SM_SetAt \<lparr>sm_r = 1, sm_c = 1, sm_v = []\<rparr> 1 1 1 = Inr \<lparr>sm_r = 1, sm_c = 1, sm_v = [(0, 1)]\<rparr>
   \<and> FM_SetAt \<lparr>fm_r = 1, fm_c = 1, fm_v = 2\<rparr> 1 1 1 = Inr \<lparr>fm_r = 1, fm_c = 1, fm_v = 3\<rparr>
   \<and> \<not> failsE (Sparse (MPFM \<lparr>pfm_r = 1, pfm_c = 1, pfm_v = [1]\<rparr>))
   \<and> At (MPFM \<lparr>pfm_r = 1, pfm_c = 1, pfm_v = [1]\<rparr>) 1 1 = Inr 1
   \<and> (\<exists>B. Sparse (MPFM \<lparr>pfm_r = 1, pfm_c = 1, pfm_v = [1]\<rparr>) = Inr B \<and> SM_At B 1 1 = Inr 1)
   \<and> (\<exists>B. Full (MPFM \<lparr>pfm_r = 1, pfm_c = 1, pfm_v = [1]\<rparr>) = Inr B \<and> FM_At B 1 1 = Inr 1)"
proof -
  let ?A = "\<lparr>pfm_r = 1, pfm_c = 1, pfm_v = [1]\<rparr>"
  have h1: "SM_index \<lparr>sm_r = 1, sm_c = 1, sm_v = []\<rparr> 1 1 = Inr 0"
    by (simp add: SM_index_def coord_def)
  have h2: "FM_index \<lparr>fm_r = 1, fm_c = 1, fm_v = 2\<rparr> 1 1 = Inr 0"
    by (simp add: FM_index_def)
  have h3: "wf_PFM ?A"
    by (simp add: wf_PFM_def)
  have h4: "\<not> not01 1"
    by (simp add: not01_def poly_degree_def BitLen_def BitLen_nat.simps)
  have h5: "At (MPFM ?A) 1 1 = Inr 1"
    by (simp add: PFM_At_def PFM_index_def bindE_def slice_get_def)
  have h6: "\<not> (\<exists>q\<in>set (pfm_v ?A). not01 q)"
    using h4 by simp
  note t = binary_element_check [OF h1 h2 h3, of 1]
  have old: "SM_SetAt \<lparr>sm_r = 1, sm_c = 1, sm_v = []\<rparr> 1 1 1 = Inr \<lparr>sm_r = 1, sm_c = 1, sm_v = [(0, 1)]\<rparr>
   \<and> FM_SetAt \<lparr>fm_r = 1, fm_c = 1, fm_v = 2\<rparr> 1 1 1 = Inr \<lparr>fm_r = 1, fm_c = 1, fm_v = 3\<rparr>
   \<and> \<not> failsE (Sparse (MPFM ?A))"
    using t h4 by (simp add: SetBit_def not01_def)
  from t h6 obtain B where B: "Sparse (MPFM ?A) = Inr B"
      "\<forall>r c q. At (MPFM ?A) r c = Inr q \<longrightarrow> SM_At B r c = Inr (to01 (odd q))"
    by blast
  from t h6 obtain B' where B': "Full (MPFM ?A) = Inr B'"
      "\<forall>r c q. At (MPFM ?A) r c = Inr q \<longrightarrow> FM_At B' r c = Inr (to01 (odd q))"
    by blast
  have "SM_At B 1 1 = Inr 1"
    using B(2) h5 by (simp add: to01_def oneP_def del: At.simps)
  moreover have "FM_At B' 1 1 = Inr 1"
    using B'(2) h5 by (simp add: to01_def oneP_def del: At.simps)
  ultimately show ?thesis
    using h1 h2 h3 h4 h5 old B(1) B'(1) by (simp del: At.simps)
qed

section \<open>Separation of the product from its operands\<close>






lemma makes_iff: "makes h res \<longleftrightarrow> (\<forall>C g. res = Inr (C, g) \<longrightarrow> ref_v C = length h \<and> grown h g)"
  by (cases res) (auto simp: makes_def)





















lemma makes_bindE: "(\<And>x. m = Inr x \<Longrightarrow> makes h (f x)) \<Longrightarrow> makes h (bindE m f)"
  by (cases m) (simp_all add: bindE_def makes_iff)














section \<open>What a mutation writes\<close>





























section \<open>Reading an element\<close>





section \<open>The product and its operands\<close>




end
